theory Spec2Isabelle
  imports Main "HOL-Library.Word"
begin

unbundle bit_operations_syntax

section \<open>Bytes, byte order and object representations\<close>

text \<open>
  The packet codec copies scalars to and from the byte buffer with \<^verbatim>\<open>std::memcpy\<close> and
  normalises 16 and 32 bit integers with \<^verbatim>\<open>htons\<close>/\<^verbatim>\<open>htonl\<close>. Both depend on the byte
  order of the host, which therefore is a parameter of the model. \<open>size_t\<close> is 64 bits
  wide (the LP64 platforms of \<^verbatim>\<open>src/Unix/SocketImpl.cpp\<close>).
\<close>

type_synonym byte = "8 word"
type_synonym size_t = "64 word"

datatype byte_order = LittleEndian | BigEndian

text \<open>The \<open>n\<close> low bytes of a word, least significant first, and the inverse.\<close>

primrec le_bytes :: "nat \<Rightarrow> 'a::len word \<Rightarrow> byte list" where
  "le_bytes 0 w = []"
| "le_bytes (Suc n) w = ucast w # le_bytes n (drop_bit 8 w)"

primrec from_le :: "byte list \<Rightarrow> 'a::len word" where
  "from_le [] = 0"
| "from_le (b # bs) = ucast b OR push_bit 8 (from_le bs)"

text \<open>
  \<open>object_bytes h n w\<close> is what \<^verbatim>\<open>memcpy(dst, &w, n)\<close> copies out of an \<open>n\<close>-byte scalar
  \<open>w\<close> on a host of byte order \<open>h\<close>; \<open>object_value h bs\<close> is the scalar that
  \<^verbatim>\<open>memcpy(&w, src, n)\<close> leaves in \<open>w\<close>.
\<close>

definition object_bytes :: "byte_order \<Rightarrow> nat \<Rightarrow> 'a::len word \<Rightarrow> byte list" where
  "object_bytes h n w = (case h of LittleEndian \<Rightarrow> le_bytes n w | BigEndian \<Rightarrow> rev (le_bytes n w))"

definition object_value :: "byte_order \<Rightarrow> byte list \<Rightarrow> 'a::len word" where
  "object_value h bs = (case h of LittleEndian \<Rightarrow> from_le bs | BigEndian \<Rightarrow> from_le (rev bs))"

text \<open>
  The C library's \<^verbatim>\<open>htons\<close>, \<^verbatim>\<open>ntohs\<close>, \<^verbatim>\<open>htonl\<close> and \<^verbatim>\<open>ntohl\<close>: the identity on a
  big-endian host, the reversal of the bytes on a little-endian one.
\<close>

definition bswap :: "nat \<Rightarrow> 'a::len word \<Rightarrow> 'a word" where
  "bswap n w = from_le (rev (le_bytes n w))"

definition htons :: "byte_order \<Rightarrow> 16 word \<Rightarrow> 16 word" where
  "htons h w = (case h of BigEndian \<Rightarrow> w | LittleEndian \<Rightarrow> bswap 2 w)"

definition ntohs :: "byte_order \<Rightarrow> 16 word \<Rightarrow> 16 word" where
  "ntohs h w = (case h of BigEndian \<Rightarrow> w | LittleEndian \<Rightarrow> bswap 2 w)"

definition htonl :: "byte_order \<Rightarrow> 32 word \<Rightarrow> 32 word" where
  "htonl h w = (case h of BigEndian \<Rightarrow> w | LittleEndian \<Rightarrow> bswap 4 w)"

definition ntohl :: "byte_order \<Rightarrow> 32 word \<Rightarrow> 32 word" where
  "ntohl h w = (case h of BigEndian \<Rightarrow> w | LittleEndian \<Rightarrow> bswap 4 w)"


section \<open>Packet (Packet.h, Packet.cpp)\<close>

record Packet =
  m_data :: "byte list"
  m_readPos :: size_t
  m_sendPos :: size_t
  m_isValid :: bool

text \<open>The default constructor: the member initialisers of \<^verbatim>\<open>Packet.h\<close>.\<close>

definition Packet_new :: Packet where
  "Packet_new = \<lparr>m_data = [], m_readPos = 0, m_sendPos = 0, m_isValid = True\<rparr>"

text \<open>
  \<^verbatim>\<open>Packet::append(const void* data, std::size_t sizeInBytes)\<close>. The pointer is \<open>None\<close>
  when null, otherwise \<open>Some\<close> of the bytes it points to, of which the first
  \<open>sizeInBytes\<close> are inserted at the end of the buffer.
\<close>

definition append :: "Packet \<Rightarrow> byte list option \<Rightarrow> size_t \<Rightarrow> Packet" where
  "append p data sizeInBytes =
     (case data of
        None \<Rightarrow> p
      | Some bytes \<Rightarrow>
          if sizeInBytes > 0 then p\<lparr>m_data := m_data p @ take (unat sizeInBytes) bytes\<rparr>
          else p)"

definition getReadPosition :: "Packet \<Rightarrow> size_t" where
  "getReadPosition p = m_readPos p"

definition clear :: "Packet \<Rightarrow> Packet" where
  "clear p = p\<lparr>m_data := [], m_readPos := 0, m_isValid := True\<rparr>"

definition getData :: "Packet \<Rightarrow> byte list option" where
  "getData p = (if m_data p \<noteq> [] then Some (m_data p) else None)"

definition getDataSize :: "Packet \<Rightarrow> size_t" where
  "getDataSize p = of_nat (length (m_data p))"

definition endOfPacket :: "Packet \<Rightarrow> bool" where
  "endOfPacket p = (unat (m_readPos p) \<ge> length (m_data p))"

text \<open>
  \<^verbatim>\<open>Packet::checkSize\<close>: returns the new validity flag and the packet holding it. The
  sum of \<open>m_readPos\<close> and the size wraps around at \<open>2 ^ 64\<close>, as the source's does.
\<close>

definition checkSize :: "Packet \<Rightarrow> size_t \<Rightarrow> bool \<times> Packet" where
  "checkSize p sz =
     (let overflow_detected = (m_readPos p + sz < m_readPos p);
          valid = (m_isValid p \<and> unat (m_readPos p + sz) \<le> length (m_data p)
                   \<and> \<not> overflow_detected)
      in (valid, p\<lparr>m_isValid := valid\<rparr>))"

definition onSend :: "Packet \<Rightarrow> byte list option \<times> size_t" where
  "onSend p = (getData p, getDataSize p)"

definition onReceive :: "Packet \<Rightarrow> byte list option \<Rightarrow> size_t \<Rightarrow> Packet" where
  "onReceive p data sz = append p data sz"

text \<open>The \<open>n\<close> bytes that \<^verbatim>\<open>memcpy(dst, &m_data[m_readPos], n)\<close> reads.\<close>

definition bytes_at_readPos :: "Packet \<Rightarrow> nat \<Rightarrow> byte list" where
  "bytes_at_readPos p n = take n (drop (unat (m_readPos p)) (m_data p))"

definition advance :: "Packet \<Rightarrow> size_t \<Rightarrow> Packet" where
  "advance p n = p\<lparr>m_readPos := m_readPos p + n\<rparr>"

text \<open>
  \<^verbatim>\<open>ToInteger<T>(bytes...)\<close>: the fold \<^verbatim>\<open>result |= T(byte) << 8 * i++\<close> over the
  arguments, from the first to the last.
\<close>

fun ToInteger_fold :: "'a::len word \<Rightarrow> nat \<Rightarrow> byte list \<Rightarrow> 'a word" where
  "ToInteger_fold result i [] = result"
| "ToInteger_fold result i (b # bytes) =
     ToInteger_fold (result OR push_bit (8 * i) (ucast b)) (Suc i) bytes"

definition ToInteger :: "byte list \<Rightarrow> 'a::len word" where
  "ToInteger bytes = ToInteger_fold 0 0 bytes"

subsection \<open>Insertion: the overloads of \<^verbatim>\<open>operator<<\<close>\<close>

text \<open>
  Signed and unsigned integers of one width share a word type; \<^verbatim>\<open>static_cast\<close> between
  them keeps the bits. A \<^verbatim>\<open>float\<close> or \<^verbatim>\<open>double\<close> is modelled by the 32 or 64 bits of its
  value, of which the packet only ever copies the bytes.
\<close>

definition insert_uint8 :: "Packet \<Rightarrow> 8 word \<Rightarrow> Packet" where
  "insert_uint8 p data = append p (Some [data]) 1"

definition insert_int8 :: "Packet \<Rightarrow> 8 word \<Rightarrow> Packet" where
  "insert_int8 p data = append p (Some [data]) 1"

definition insert_bool :: "Packet \<Rightarrow> bool \<Rightarrow> Packet" where
  "insert_bool p data = insert_uint8 p (if data then 1 else 0)"

definition insert_int16 :: "byte_order \<Rightarrow> Packet \<Rightarrow> 16 word \<Rightarrow> Packet" where
  "insert_int16 h p data =
     (let to_write = htons h data in append p (Some (object_bytes h 2 to_write)) 2)"

definition insert_uint16 :: "byte_order \<Rightarrow> Packet \<Rightarrow> 16 word \<Rightarrow> Packet" where
  "insert_uint16 h p data =
     (let to_write = htons h data in append p (Some (object_bytes h 2 to_write)) 2)"

definition insert_int32 :: "byte_order \<Rightarrow> Packet \<Rightarrow> 32 word \<Rightarrow> Packet" where
  "insert_int32 h p data =
     (let to_write = htonl h data in append p (Some (object_bytes h 4 to_write)) 4)"

definition insert_uint32 :: "byte_order \<Rightarrow> Packet \<Rightarrow> 32 word \<Rightarrow> Packet" where
  "insert_uint32 h p data =
     (let to_write = htonl h data in append p (Some (object_bytes h 4 to_write)) 4)"

text \<open>On \<^verbatim>\<open>std::int64_t\<close> the shift \<^verbatim>\<open>>>\<close> is arithmetic, on \<^verbatim>\<open>std::uint64_t\<close> logical.\<close>

definition insert_int64 :: "Packet \<Rightarrow> 64 word \<Rightarrow> Packet" where
  "insert_int64 p data =
     (let to_write =
        [ucast (signed_drop_bit 56 data AND 0xFF), ucast (signed_drop_bit 48 data AND 0xFF),
         ucast (signed_drop_bit 40 data AND 0xFF), ucast (signed_drop_bit 32 data AND 0xFF),
         ucast (signed_drop_bit 24 data AND 0xFF), ucast (signed_drop_bit 16 data AND 0xFF),
         ucast (signed_drop_bit 8 data AND 0xFF), ucast (data AND 0xFF)]
      in append p (Some to_write) (of_nat (length to_write)))"

definition insert_uint64 :: "Packet \<Rightarrow> 64 word \<Rightarrow> Packet" where
  "insert_uint64 p data =
     (let to_write =
        [ucast (drop_bit 56 data AND 0xFF), ucast (drop_bit 48 data AND 0xFF),
         ucast (drop_bit 40 data AND 0xFF), ucast (drop_bit 32 data AND 0xFF),
         ucast (drop_bit 24 data AND 0xFF), ucast (drop_bit 16 data AND 0xFF),
         ucast (drop_bit 8 data AND 0xFF), ucast (data AND 0xFF)]
      in append p (Some to_write) (of_nat (length to_write)))"

definition insert_float :: "byte_order \<Rightarrow> Packet \<Rightarrow> 32 word \<Rightarrow> Packet" where
  "insert_float h p data = append p (Some (object_bytes h 4 data)) 4"

definition insert_double :: "byte_order \<Rightarrow> Packet \<Rightarrow> 64 word \<Rightarrow> Packet" where
  "insert_double h p data = append p (Some (object_bytes h 8 data)) 8"

text \<open>
  C strings. A \<^verbatim>\<open>const char*\<close> or \<^verbatim>\<open>const wchar_t*\<close> argument is the list of the
  characters it points to; \<^verbatim>\<open>strlen\<close> and \<^verbatim>\<open>wcslen\<close> count up to the first
  terminator. \<^verbatim>\<open>wchar_t\<close> is 32 bits wide, as on the Unix platforms.
\<close>

definition strlen :: "'a::len word list \<Rightarrow> nat" where
  "strlen s = length (takeWhile (\<lambda>c. c \<noteq> 0) s)"

definition insert_cstr :: "byte_order \<Rightarrow> Packet \<Rightarrow> byte list \<Rightarrow> Packet" where
  "insert_cstr h p data =
     (let length32 = (of_nat (strlen data) :: 32 word);
          p1 = insert_uint32 h p length32
      in append p1 (Some data) (ucast length32 * 1))"

definition insert_string :: "byte_order \<Rightarrow> Packet \<Rightarrow> byte list \<Rightarrow> Packet" where
  "insert_string h p data =
     (let length32 = (of_nat (length data) :: 32 word);
          p1 = insert_uint32 h p length32
      in if length32 > 0 then append p1 (Some (data @ [0])) (ucast length32 * 1) else p1)"

definition insert_wcstr :: "byte_order \<Rightarrow> Packet \<Rightarrow> 32 word list \<Rightarrow> Packet" where
  "insert_wcstr h p data =
     (let length32 = (of_nat (strlen data) :: 32 word);
          p1 = insert_uint32 h p length32
      in foldl (insert_uint32 h) p1 (takeWhile (\<lambda>c. c \<noteq> 0) data))"

definition insert_wstring :: "byte_order \<Rightarrow> Packet \<Rightarrow> 32 word list \<Rightarrow> Packet" where
  "insert_wstring h p data =
     (let length32 = (of_nat (length data) :: 32 word);
          p1 = insert_uint32 h p length32
      in if length32 > 0 then foldl (insert_uint32 h) p1 data else p1)"

definition insert_u32string :: "byte_order \<Rightarrow> Packet \<Rightarrow> 32 word list \<Rightarrow> Packet" where
  "insert_u32string h p data =
     (let length32 = (of_nat (length data) :: 32 word);
          p1 = insert_uint32 h p length32
      in if length32 > 0 then foldl (insert_uint32 h) p1 data else p1)"

subsection \<open>Extraction: the overloads of \<^verbatim>\<open>operator>>\<close>\<close>

text \<open>
  An extraction takes the packet and the value that the caller's variable holds before
  the call, and returns the packet and the value that the variable holds after it.
\<close>

definition extract_int8 :: "Packet \<Rightarrow> 8 word \<Rightarrow> Packet \<times> 8 word" where
  "extract_int8 p data =
     (case checkSize p 1 of
        (True, p') \<Rightarrow> (advance p' 1, m_data p' ! unat (m_readPos p'))
      | (False, p') \<Rightarrow> (p', data))"

definition extract_uint8 :: "Packet \<Rightarrow> 8 word \<Rightarrow> Packet \<times> 8 word" where
  "extract_uint8 p data =
     (case checkSize p 1 of
        (True, p') \<Rightarrow> (advance p' 1, m_data p' ! unat (m_readPos p'))
      | (False, p') \<Rightarrow> (p', data))"

definition extract_bool :: "Packet \<Rightarrow> bool \<Rightarrow> Packet \<times> bool" where
  "extract_bool p data =
     (case extract_uint8 p 0 of
        (p', val) \<Rightarrow> if m_isValid p' then (p', val \<noteq> 0) else (p', data))"

definition extract_int16 :: "byte_order \<Rightarrow> Packet \<Rightarrow> 16 word \<Rightarrow> Packet \<times> 16 word" where
  "extract_int16 h p data =
     (case checkSize p 2 of
        (True, p') \<Rightarrow> (advance p' 2, ntohs h (object_value h (bytes_at_readPos p' 2)))
      | (False, p') \<Rightarrow> (p', data))"

definition extract_uint16 :: "byte_order \<Rightarrow> Packet \<Rightarrow> 16 word \<Rightarrow> Packet \<times> 16 word" where
  "extract_uint16 h p data =
     (case checkSize p 2 of
        (True, p') \<Rightarrow> (advance p' 2, ntohs h (object_value h (bytes_at_readPos p' 2)))
      | (False, p') \<Rightarrow> (p', data))"

definition extract_int32 :: "byte_order \<Rightarrow> Packet \<Rightarrow> 32 word \<Rightarrow> Packet \<times> 32 word" where
  "extract_int32 h p data =
     (case checkSize p 4 of
        (True, p') \<Rightarrow> (advance p' 4, ntohl h (object_value h (bytes_at_readPos p' 4)))
      | (False, p') \<Rightarrow> (p', data))"

definition extract_uint32 :: "byte_order \<Rightarrow> Packet \<Rightarrow> 32 word \<Rightarrow> Packet \<times> 32 word" where
  "extract_uint32 h p data =
     (case checkSize p 4 of
        (True, p') \<Rightarrow> (advance p' 4, ntohl h (object_value h (bytes_at_readPos p' 4)))
      | (False, p') \<Rightarrow> (p', data))"

text \<open>
  The 64 bit overloads copy eight bytes into \<^verbatim>\<open>bytes\<close> and pass them to
  \<^verbatim>\<open>ToInteger\<close> from \<^verbatim>\<open>bytes[7]\<close> down to \<^verbatim>\<open>bytes[0]\<close>.
\<close>

definition extract_int64 :: "Packet \<Rightarrow> 64 word \<Rightarrow> Packet \<times> 64 word" where
  "extract_int64 p data =
     (case checkSize p 8 of
        (True, p') \<Rightarrow>
          (let bytes = bytes_at_readPos p' 8
           in (advance p' 8,
               ToInteger [bytes ! 7, bytes ! 6, bytes ! 5, bytes ! 4,
                          bytes ! 3, bytes ! 2, bytes ! 1, bytes ! 0]))
      | (False, p') \<Rightarrow> (p', data))"

definition extract_uint64 :: "Packet \<Rightarrow> 64 word \<Rightarrow> Packet \<times> 64 word" where
  "extract_uint64 p data =
     (case checkSize p 8 of
        (True, p') \<Rightarrow>
          (let bytes = bytes_at_readPos p' 8
           in (advance p' 8,
               ToInteger [bytes ! 7, bytes ! 6, bytes ! 5, bytes ! 4,
                          bytes ! 3, bytes ! 2, bytes ! 1, bytes ! 0]))
      | (False, p') \<Rightarrow> (p', data))"

definition extract_float :: "byte_order \<Rightarrow> Packet \<Rightarrow> 32 word \<Rightarrow> Packet \<times> 32 word" where
  "extract_float h p data =
     (case checkSize p 4 of
        (True, p') \<Rightarrow> (advance p' 4, object_value h (bytes_at_readPos p' 4))
      | (False, p') \<Rightarrow> (p', data))"

definition extract_double :: "byte_order \<Rightarrow> Packet \<Rightarrow> 64 word \<Rightarrow> Packet \<times> 64 word" where
  "extract_double h p data =
     (case checkSize p 8 of
        (True, p') \<Rightarrow> (advance p' 8, object_value h (bytes_at_readPos p' 8))
      | (False, p') \<Rightarrow> (p', data))"

text \<open>
  A \<^verbatim>\<open>char*\<close> or \<^verbatim>\<open>wchar_t*\<close> destination is the list of the elements of the caller's
  array. \<open>store\<close> is the assignment \<^verbatim>\<open>data[i] = v\<close> and \<open>store_bytes\<close> the
  \<^verbatim>\<open>memcpy\<close> to the start of the array. A write past the end of the array, which the
  source leaves undefined, is dropped.
\<close>

definition store :: "'a list \<Rightarrow> nat \<Rightarrow> 'a \<Rightarrow> 'a list" where
  "store data i v = data[i := v]"

definition store_bytes :: "'a list \<Rightarrow> 'a list \<Rightarrow> 'a list" where
  "store_bytes data src = take (length data) (src @ drop (length src) data)"

definition extract_cstr :: "byte_order \<Rightarrow> Packet \<Rightarrow> byte list \<Rightarrow> Packet \<times> byte list" where
  "extract_cstr h p data =
     (case extract_uint32 h p 0 of
        (p1, length32) \<Rightarrow>
          if length32 > 0 then
            (case checkSize p1 (ucast length32) of
               (True, p2) \<Rightarrow>
                 (advance p2 (ucast length32),
                  store (store_bytes data (bytes_at_readPos p2 (unat length32)))
                        (unat length32) 0)
             | (False, p2) \<Rightarrow> (p2, data))
          else (p1, data))"

definition extract_string :: "byte_order \<Rightarrow> Packet \<Rightarrow> byte list \<Rightarrow> Packet \<times> byte list" where
  "extract_string h p data =
     (case extract_uint32 h p 0 of
        (p1, length32) \<Rightarrow>
          (let data = [] in
           if length32 > 0 then
             (case checkSize p1 (ucast length32) of
                (True, p2) \<Rightarrow>
                  (advance p2 (ucast length32), bytes_at_readPos p2 (unat length32))
              | (False, p2) \<Rightarrow> (p2, data))
           else (p1, data)))"

text \<open>
  The loops \<^verbatim>\<open>for (i = 0; i < length; ++i) { character = 0; *this >> character; ... }\<close>
  of the wide string overloads, by recursion on the number of rounds left.
\<close>

fun extract_wchars_at ::
  "byte_order \<Rightarrow> nat \<Rightarrow> nat \<Rightarrow> Packet \<Rightarrow> 32 word list \<Rightarrow> Packet \<times> 32 word list" where
  "extract_wchars_at h 0 i p data = (p, data)"
| "extract_wchars_at h (Suc n) i p data =
     (case extract_uint32 h p 0 of
        (p', character) \<Rightarrow> extract_wchars_at h n (Suc i) p' (store data i character))"

fun extract_wchars_push ::
  "byte_order \<Rightarrow> nat \<Rightarrow> Packet \<Rightarrow> 32 word list \<Rightarrow> Packet \<times> 32 word list" where
  "extract_wchars_push h 0 p data = (p, data)"
| "extract_wchars_push h (Suc n) p data =
     (case extract_uint32 h p 0 of
        (p', character) \<Rightarrow> extract_wchars_push h n p' (data @ [character]))"

definition extract_wcstr ::
  "byte_order \<Rightarrow> Packet \<Rightarrow> 32 word list \<Rightarrow> Packet \<times> 32 word list" where
  "extract_wcstr h p data =
     (case extract_uint32 h p 0 of
        (p1, length32) \<Rightarrow>
          if length32 > 0 then
            (case checkSize p1 (ucast length32 * 4) of
               (True, p2) \<Rightarrow>
                 (case extract_wchars_at h (unat length32) 0 p2 data of
                    (p3, data') \<Rightarrow> (p3, store data' (unat length32) 0))
             | (False, p2) \<Rightarrow> (p2, data))
          else (p1, data))"

definition extract_wstring ::
  "byte_order \<Rightarrow> Packet \<Rightarrow> 32 word list \<Rightarrow> Packet \<times> 32 word list" where
  "extract_wstring h p data =
     (case extract_uint32 h p 0 of
        (p1, length32) \<Rightarrow>
          (let data = [] in
           if length32 > 0 then
             (case checkSize p1 (ucast length32 * 4) of
                (True, p2) \<Rightarrow> extract_wchars_push h (unat length32) p2 data
              | (False, p2) \<Rightarrow> (p2, data))
           else (p1, data)))"

definition extract_u32string ::
  "byte_order \<Rightarrow> Packet \<Rightarrow> 32 word list \<Rightarrow> Packet \<times> 32 word list" where
  "extract_u32string h p data =
     (case extract_uint32 h p 0 of
        (p1, length32) \<Rightarrow>
          (let data = [] in
           if length32 > 0 then
             (case checkSize p1 (ucast length32 * 4) of
                (True, p2) \<Rightarrow> extract_wchars_push h (unat length32) p2 data
              | (False, p2) \<Rightarrow> (p2, data))
           else (p1, data)))"

subsection \<open>The overloads, selected by the type of the operand\<close>

text \<open>
  One constructor for each type that \<^verbatim>\<open>operator<<\<close> and \<^verbatim>\<open>operator>>\<close> are overloaded
  on. For an extraction the operand is the caller's variable, whose type selects the
  overload and whose value is what the variable holds before the call.
\<close>

datatype operand =
    VBool bool
  | VInt8 "8 word" | VUint8 "8 word"
  | VInt16 "16 word" | VUint16 "16 word"
  | VInt32 "32 word" | VUint32 "32 word"
  | VInt64 "64 word" | VUint64 "64 word"
  | VFloat "32 word" | VDouble "64 word"
  | VCharPtr "byte list" | VString "byte list"
  | VWCharPtr "32 word list" | VWString "32 word list" | VU32String "32 word list"

fun insert_operand :: "byte_order \<Rightarrow> Packet \<Rightarrow> operand \<Rightarrow> Packet" where
  "insert_operand h p (VBool x) = insert_bool p x"
| "insert_operand h p (VInt8 x) = insert_int8 p x"
| "insert_operand h p (VUint8 x) = insert_uint8 p x"
| "insert_operand h p (VInt16 x) = insert_int16 h p x"
| "insert_operand h p (VUint16 x) = insert_uint16 h p x"
| "insert_operand h p (VInt32 x) = insert_int32 h p x"
| "insert_operand h p (VUint32 x) = insert_uint32 h p x"
| "insert_operand h p (VInt64 x) = insert_int64 p x"
| "insert_operand h p (VUint64 x) = insert_uint64 p x"
| "insert_operand h p (VFloat x) = insert_float h p x"
| "insert_operand h p (VDouble x) = insert_double h p x"
| "insert_operand h p (VCharPtr x) = insert_cstr h p x"
| "insert_operand h p (VString x) = insert_string h p x"
| "insert_operand h p (VWCharPtr x) = insert_wcstr h p x"
| "insert_operand h p (VWString x) = insert_wstring h p x"
| "insert_operand h p (VU32String x) = insert_u32string h p x"

fun extract_operand :: "byte_order \<Rightarrow> Packet \<Rightarrow> operand \<Rightarrow> Packet \<times> operand" where
  "extract_operand h p (VBool x) = apsnd VBool (extract_bool p x)"
| "extract_operand h p (VInt8 x) = apsnd VInt8 (extract_int8 p x)"
| "extract_operand h p (VUint8 x) = apsnd VUint8 (extract_uint8 p x)"
| "extract_operand h p (VInt16 x) = apsnd VInt16 (extract_int16 h p x)"
| "extract_operand h p (VUint16 x) = apsnd VUint16 (extract_uint16 h p x)"
| "extract_operand h p (VInt32 x) = apsnd VInt32 (extract_int32 h p x)"
| "extract_operand h p (VUint32 x) = apsnd VUint32 (extract_uint32 h p x)"
| "extract_operand h p (VInt64 x) = apsnd VInt64 (extract_int64 p x)"
| "extract_operand h p (VUint64 x) = apsnd VUint64 (extract_uint64 p x)"
| "extract_operand h p (VFloat x) = apsnd VFloat (extract_float h p x)"
| "extract_operand h p (VDouble x) = apsnd VDouble (extract_double h p x)"
| "extract_operand h p (VCharPtr x) = apsnd VCharPtr (extract_cstr h p x)"
| "extract_operand h p (VString x) = apsnd VString (extract_string h p x)"
| "extract_operand h p (VWCharPtr x) = apsnd VWCharPtr (extract_wcstr h p x)"
| "extract_operand h p (VWString x) = apsnd VWString (extract_wstring h p x)"
| "extract_operand h p (VU32String x) = apsnd VU32String (extract_u32string h p x)"

text \<open>The operations on a packet, and a sequence of them run from left to right.\<close>

datatype packet_op =
    Extract operand
  | Insert operand
  | Append "byte list option" size_t
  | OnReceive "byte list option" size_t
  | OnSend
  | Clear

fun apply_op :: "byte_order \<Rightarrow> Packet \<Rightarrow> packet_op \<Rightarrow> Packet" where
  "apply_op h p (Extract x) = fst (extract_operand h p x)"
| "apply_op h p (Insert x) = insert_operand h p x"
| "apply_op h p (Append data sz) = append p data sz"
| "apply_op h p (OnReceive data sz) = onReceive p data sz"
| "apply_op h p OnSend = p"
| "apply_op h p Clear = clear p"

definition run_ops :: "byte_order \<Rightarrow> Packet \<Rightarrow> packet_op list \<Rightarrow> Packet" where
  "run_ops h p ops = foldl (apply_op h) p ops"

text \<open>
  What a round trip has to establish: the extraction returned the value \<open>v\<close> and left
  the packet valid.
\<close>

definition restores :: "Packet \<times> 'a \<Rightarrow> 'a \<Rightarrow> bool" where
  "restores r v = (snd r = v \<and> m_isValid (fst r))"


section \<open>IpAddress (IpAddress.h, IpAddress.cpp)\<close>

record IpAddress =
  m_address :: "32 word"
  m_valid :: bool

text \<open>
  \<^verbatim>\<open>IpAddress(byte0, byte1, byte2, byte3)\<close> and \<^verbatim>\<open>IpAddress(std::uint32_t)\<close>: the address
  is stored in network byte order.
\<close>

definition IpAddress_bytes :: "byte_order \<Rightarrow> byte \<Rightarrow> byte \<Rightarrow> byte \<Rightarrow> byte \<Rightarrow> IpAddress" where
  "IpAddress_bytes h byte0 byte1 byte2 byte3 =
     \<lparr>m_address = htonl h (push_bit 24 (ucast byte0) OR push_bit 16 (ucast byte1)
                            OR push_bit 8 (ucast byte2) OR ucast byte3),
      m_valid = True\<rparr>"

definition IpAddress_integer :: "byte_order \<Rightarrow> 32 word \<Rightarrow> IpAddress" where
  "IpAddress_integer h address = \<lparr>m_address = htonl h address, m_valid = True\<rparr>"

definition Any :: "byte_order \<Rightarrow> IpAddress" where
  "Any h = IpAddress_bytes h 0 0 0 0"

definition LocalHost :: "byte_order \<Rightarrow> IpAddress" where
  "LocalHost h = IpAddress_bytes h 127 0 0 1"

definition Broadcast :: "byte_order \<Rightarrow> IpAddress" where
  "Broadcast h = IpAddress_bytes h 255 255 255 255"

definition toInteger :: "byte_order \<Rightarrow> IpAddress \<Rightarrow> 32 word" where
  "toInteger h a = ntohl h (m_address a)"

text \<open>
  \<^verbatim>\<open>operator<\<close> compares the pairs \<open>(m_valid, m_address)\<close> as \<^verbatim>\<open>std::pair\<close> does,
  with \<open>false < true\<close>; \<^verbatim>\<open>operator==\<close> is defined from it.
\<close>

definition IpAddress_less :: "IpAddress \<Rightarrow> IpAddress \<Rightarrow> bool" where
  "IpAddress_less left right =
     (m_valid left < m_valid right
      \<or> (\<not> m_valid right < m_valid left \<and> m_address left < m_address right))"

definition IpAddress_eq :: "IpAddress \<Rightarrow> IpAddress \<Rightarrow> bool" where
  "IpAddress_eq left right = (\<not> IpAddress_less left right \<and> \<not> IpAddress_less right left)"

text \<open>
  The C library's \<^verbatim>\<open>inet_ntop(AF_INET, src, dst, size)\<close>: it reads the four bytes of the
  \<^verbatim>\<open>in_addr\<close> in the order they lie in memory, writes them in decimal separated by
  dots, and fails when the text and its terminator do not fit into \<open>size\<close> characters.
\<close>

fun decimal :: "nat \<Rightarrow> string" where
  "decimal n =
     (if n < 10 then [char_of (48 + n)]
      else decimal (n div 10) @ [char_of (48 + n mod 10)])"

definition dotted :: "byte list \<Rightarrow> string" where
  "dotted src =
     decimal (unat (src ! 0)) @ ''.'' @ decimal (unat (src ! 1)) @ ''.''
     @ decimal (unat (src ! 2)) @ ''.'' @ decimal (unat (src ! 3))"

definition inet_ntop :: "byte list \<Rightarrow> nat \<Rightarrow> string option" where
  "inet_ntop src sz = (if length (dotted src) + 1 \<le> sz then Some (dotted src) else None)"

definition INET_ADDRSTRLEN :: nat where
  "INET_ADDRSTRLEN = 16"

definition toString :: "byte_order \<Rightarrow> IpAddress \<Rightarrow> string" where
  "toString h a =
     (case inet_ntop (object_bytes h 4 (m_address a)) INET_ADDRSTRLEN of
        Some buffer \<Rightarrow> buffer
      | None \<Rightarrow> ''0.0.0.0'')"


section \<open>Socket (Socket.h, Socket.cpp, Unix/SocketImpl.cpp)\<close>

datatype Status = Done | NotReady | Partial | Disconnected | Error

datatype Type = Tcp | Udp

type_synonym SocketHandle = int

definition invalidSocket :: SocketHandle where
  "invalidSocket = - 1"

record sockaddr_in =
  sin_addr :: "32 word"
  sin_port :: "16 word"

definition createAddress :: "byte_order \<Rightarrow> 32 word \<Rightarrow> 16 word \<Rightarrow> sockaddr_in" where
  "createAddress h address port = \<lparr>sin_addr = htonl h address, sin_port = htons h port\<rparr>"

text \<open>
  The operating system. Every call that the library makes is appended to a log, and
  what the system answers is a parameter: the handle returned by \<^verbatim>\<open>socket\<close>, the return
  values of \<^verbatim>\<open>bind\<close>, \<^verbatim>\<open>listen\<close>, \<^verbatim>\<open>sendto\<close> and \<^verbatim>\<open>recvfrom\<close>, the datagram and the
  sender that \<^verbatim>\<open>recvfrom\<close> delivers, and \<^verbatim>\<open>errno\<close>.
\<close>

datatype sockopt = TCP_NODELAY | SO_BROADCAST

datatype os_call =
    Sys_socket Type
  | Sys_close SocketHandle
  | Sys_fcntl SocketHandle bool
  | Sys_setsockopt SocketHandle sockopt
  | Sys_bind SocketHandle sockaddr_in
  | Sys_listen SocketHandle
  | Sys_sendto SocketHandle "byte list option" size_t sockaddr_in
  | Sys_recvfrom SocketHandle size_t

datatype errno =
    EAGAIN | EINPROGRESS | EWOULDBLOCK | ECONNABORTED | ECONNRESET | ETIMEDOUT
  | ENETRESET | ENOTCONN | EPIPE | EOTHER

record os =
  socket_returns :: SocketHandle
  bind_returns :: int
  listen_returns :: int
  sendto_returns :: int
  recvfrom_returns :: int
  recvfrom_datagram :: "byte list"
  recvfrom_sender :: sockaddr_in
  os_errno :: errno

definition getErrorStatus :: "os \<Rightarrow> Status" where
  "getErrorStatus sys =
     (if os_errno sys = EAGAIN \<or> os_errno sys = EINPROGRESS then NotReady
      else case os_errno sys of
          EWOULDBLOCK \<Rightarrow> NotReady
        | ECONNABORTED \<Rightarrow> Disconnected
        | ECONNRESET \<Rightarrow> Disconnected
        | ETIMEDOUT \<Rightarrow> Disconnected
        | ENETRESET \<Rightarrow> Disconnected
        | ENOTCONN \<Rightarrow> Disconnected
        | EPIPE \<Rightarrow> Disconnected
        | _ \<Rightarrow> Error)"

text \<open>\<^verbatim>\<open>static_cast<int>\<close> of the \<^verbatim>\<open>ssize_t\<close> that \<^verbatim>\<open>sendto\<close> and \<^verbatim>\<open>recvfrom\<close> return.\<close>

definition static_cast_int :: "int \<Rightarrow> int" where
  "static_cast_int x = sint (word_of_int x :: 32 word)"

record Socket =
  m_type :: Type
  m_socket :: SocketHandle
  m_isBlocking :: bool

text \<open>
  A member function takes the object together with the log of the system calls made so
  far, and returns both. The functions of the base class work on every class derived
  from it.
\<close>

definition Socket_new :: "Type \<Rightarrow> Socket" where
  "Socket_new type = \<lparr>m_type = type, m_socket = invalidSocket, m_isBlocking = True\<rparr>"

definition setBlocking ::
  "bool \<Rightarrow> 'a Socket_scheme \<times> os_call list \<Rightarrow> 'a Socket_scheme \<times> os_call list" where
  "setBlocking blocking w =
     (case w of (s, log) \<Rightarrow>
        (s\<lparr>m_isBlocking := blocking\<rparr>,
         if m_socket s \<noteq> invalidSocket then log @ [Sys_fcntl (m_socket s) blocking] else log))"

definition isBlocking :: "'a Socket_scheme \<Rightarrow> bool" where
  "isBlocking s = m_isBlocking s"

definition getNativeHandle :: "'a Socket_scheme \<Rightarrow> SocketHandle" where
  "getNativeHandle s = m_socket s"

text \<open>\<^verbatim>\<open>Socket::create(SocketHandle handle)\<close>.\<close>

definition create_from ::
  "SocketHandle \<Rightarrow> 'a Socket_scheme \<times> os_call list \<Rightarrow> 'a Socket_scheme \<times> os_call list" where
  "create_from handle w =
     (case w of (s, log) \<Rightarrow>
        if m_socket s = invalidSocket then
          (case setBlocking (m_isBlocking s) (s\<lparr>m_socket := handle\<rparr>, log) of
             (s', log') \<Rightarrow>
               if m_type s' = Tcp then (s', log' @ [Sys_setsockopt (m_socket s') TCP_NODELAY])
               else (s', log' @ [Sys_setsockopt (m_socket s') SO_BROADCAST]))
        else (s, log))"

text \<open>\<^verbatim>\<open>Socket::create()\<close>.\<close>

definition create ::
  "os \<Rightarrow> 'a Socket_scheme \<times> os_call list \<Rightarrow> 'a Socket_scheme \<times> os_call list" where
  "create sys w =
     (case w of (s, log) \<Rightarrow>
        if m_socket s = invalidSocket then
          (let handle = socket_returns sys; log' = log @ [Sys_socket (m_type s)]
           in if handle = invalidSocket then (s, log') else create_from handle (s, log'))
        else (s, log))"

text \<open>\<^verbatim>\<open>Socket::close()\<close>.\<close>

definition close ::
  "'a Socket_scheme \<times> os_call list \<Rightarrow> 'a Socket_scheme \<times> os_call list" where
  "close w =
     (case w of (s, log) \<Rightarrow>
        if m_socket s \<noteq> invalidSocket then
          (s\<lparr>m_socket := invalidSocket\<rparr>, log @ [Sys_close (m_socket s)])
        else (s, log))"


section \<open>UdpSocket (UdpSocket.cpp)\<close>

text \<open>
  \<^verbatim>\<open>UdpSocket::MaxDatagramSize\<close> is declared in \<^verbatim>\<open>UdpSocket.h\<close>; it is a parameter of
  the functions that use it.
\<close>

record UdpSocket = Socket +
  m_buffer :: "byte list"

definition UdpSocket_new :: UdpSocket where
  "UdpSocket_new = \<lparr>m_type = Udp, m_socket = invalidSocket, m_isBlocking = True, m_buffer = []\<rparr>"

definition UdpSocket_bind ::
  "os \<Rightarrow> byte_order \<Rightarrow> 16 word \<Rightarrow> IpAddress \<Rightarrow> UdpSocket \<times> os_call list
     \<Rightarrow> Status \<times> UdpSocket \<times> os_call list" where
  "UdpSocket_bind sys h port address w =
     (case create sys (close w) of (s, log) \<Rightarrow>
        if IpAddress_eq address (Broadcast h) then (Error, s, log)
        else
          (let addr = createAddress h (toInteger h address) port;
               log' = log @ [Sys_bind (getNativeHandle s) addr]
           in if bind_returns sys = - 1 then (Error, s, log') else (Done, s, log')))"

definition unbind :: "UdpSocket \<times> os_call list \<Rightarrow> UdpSocket \<times> os_call list" where
  "unbind w = close w"

text \<open>\<^verbatim>\<open>UdpSocket::send(const void* data, std::size_t size, remoteAddress, remotePort)\<close>.\<close>

definition UdpSocket_send ::
  "size_t \<Rightarrow> os \<Rightarrow> byte_order \<Rightarrow> byte list option \<Rightarrow> size_t \<Rightarrow> IpAddress \<Rightarrow> 16 word
     \<Rightarrow> UdpSocket \<times> os_call list \<Rightarrow> Status \<times> UdpSocket \<times> os_call list" where
  "UdpSocket_send MaxDatagramSize sys h data sz remoteAddress remotePort w =
     (case create sys w of (s, log) \<Rightarrow>
        if sz > MaxDatagramSize then (Error, s, log)
        else
          (let address = createAddress h (toInteger h remoteAddress) remotePort;
               log' = log @ [Sys_sendto (getNativeHandle s) data sz address];
               sent = static_cast_int (sendto_returns sys)
           in if sent < 0 then (getErrorStatus sys, s, log') else (Done, s, log')))"

text \<open>The datagrams handed to the system for transmission, and the binding calls.\<close>

fun is_sendto :: "os_call \<Rightarrow> bool" where
  "is_sendto (Sys_sendto handle data sz address) = True"
| "is_sendto c = False"

fun is_bind_or_listen :: "os_call \<Rightarrow> bool" where
  "is_bind_or_listen (Sys_bind handle addr) = True"
| "is_bind_or_listen (Sys_listen handle) = True"
| "is_bind_or_listen c = False"

text \<open>
  \<^verbatim>\<open>UdpSocket::receive(void* data, std::size_t size, received, remoteAddress, remotePort)\<close>.
  The result holds the status, the destination array and the three output arguments.
\<close>

record receive_result =
  out_status :: Status
  out_data :: "byte list option"
  out_received :: size_t
  out_remoteAddress :: "IpAddress option"
  out_remotePort :: "16 word"

definition UdpSocket_receive ::
  "os \<Rightarrow> byte_order \<Rightarrow> byte list option \<Rightarrow> size_t \<Rightarrow> UdpSocket \<times> os_call list
     \<Rightarrow> receive_result \<times> UdpSocket \<times> os_call list" where
  "UdpSocket_receive sys h data sz w =
     (case w of (s, log) \<Rightarrow>
        (case data of
           None \<Rightarrow>
             (\<lparr>out_status = Error, out_data = data, out_received = 0, out_remoteAddress = None,
               out_remotePort = 0\<rparr>, s, log)
         | Some dst \<Rightarrow>
             (let log' = log @ [Sys_recvfrom (getNativeHandle s) sz];
                  size_received = static_cast_int (recvfrom_returns sys)
              in if size_received < 0 then
                   (\<lparr>out_status = getErrorStatus sys, out_data = data, out_received = 0,
                     out_remoteAddress = None, out_remotePort = 0\<rparr>, s, log')
                 else
                   (\<lparr>out_status = Done,
                     out_data = Some (store_bytes dst
                                (take (nat size_received) (recvfrom_datagram sys))),
                     out_received = of_int size_received,
                     out_remoteAddress =
                       Some (IpAddress_integer h (ntohl h (sin_addr (recvfrom_sender sys)))),
                     out_remotePort = ntohs h (sin_port (recvfrom_sender sys))\<rparr>, s, log'))))"

text \<open>\<^verbatim>\<open>UdpSocket::send(Packet&, remoteAddress, remotePort)\<close>.\<close>

definition UdpSocket_send_packet ::
  "size_t \<Rightarrow> os \<Rightarrow> byte_order \<Rightarrow> Packet \<Rightarrow> IpAddress \<Rightarrow> 16 word
     \<Rightarrow> UdpSocket \<times> os_call list \<Rightarrow> Status \<times> UdpSocket \<times> os_call list" where
  "UdpSocket_send_packet MaxDatagramSize sys h packet remoteAddress remotePort w =
     (case onSend packet of (data, sz) \<Rightarrow>
        UdpSocket_send MaxDatagramSize sys h data sz remoteAddress remotePort w)"

text \<open>
  \<^verbatim>\<open>UdpSocket::receive(Packet&, remoteAddress, remotePort)\<close>. \<^verbatim>\<open>m_buffer.resize\<close> cuts
  the vector or fills it up with zero bytes; \<^verbatim>\<open>m_buffer.data()\<close> of an empty vector is
  taken to be null. The result holds the status, the packet, the local variable
  \<open>received\<close> and the two output arguments.
\<close>

definition resize :: "byte list \<Rightarrow> nat \<Rightarrow> byte list" where
  "resize v n = take n v @ replicate (n - length v) 0"

definition vector_data :: "byte list \<Rightarrow> byte list option" where
  "vector_data v = (if v = [] then None else Some v)"

definition UdpSocket_receive_packet ::
  "size_t \<Rightarrow> os \<Rightarrow> byte_order \<Rightarrow> Packet \<Rightarrow> UdpSocket \<times> os_call list
     \<Rightarrow> (receive_result \<times> Packet) \<times> UdpSocket \<times> os_call list" where
  "UdpSocket_receive_packet MaxDatagramSize sys h packet w =
     (case w of (s, log) \<Rightarrow>
        (let s1 = s\<lparr>m_buffer := resize (m_buffer s) (unat MaxDatagramSize)\<rparr>
         in case UdpSocket_receive sys h (vector_data (m_buffer s1))
                   (of_nat (length (m_buffer s1))) (s1, log) of
              (r, s2, log') \<Rightarrow>
                (let s3 = (case out_data r of None \<Rightarrow> s2 | Some b \<Rightarrow> s2\<lparr>m_buffer := b\<rparr>);
                     packet1 = clear packet;
                     packet2 = (if out_status r = Done \<and> out_received r > 0
                                then onReceive packet1 (vector_data (m_buffer s3)) (out_received r)
                                else packet1)
                 in ((r, packet2), s3, log'))))"


section \<open>TcpListener (TcpListener.cpp)\<close>

definition TcpListener_new :: Socket where
  "TcpListener_new = Socket_new Tcp"

definition listen ::
  "os \<Rightarrow> byte_order \<Rightarrow> 16 word \<Rightarrow> IpAddress \<Rightarrow> Socket \<times> os_call list
     \<Rightarrow> Status \<times> Socket \<times> os_call list" where
  "listen sys h port address w =
     (case create sys (close w) of (s, log) \<Rightarrow>
        if IpAddress_eq address (Broadcast h) then (Error, s, log)
        else
          (let addr = createAddress h (toInteger h address) port;
               log1 = log @ [Sys_bind (getNativeHandle s) addr]
           in if bind_returns sys = - 1 then (Error, s, log1)
              else
                (let log2 = log1 @ [Sys_listen (getNativeHandle s)]
                 in if listen_returns sys = - 1 then (Error, s, log2) else (Done, s, log2))))"


section \<open>TcpSocket (TcpSocket.h)\<close>

text \<open>
  \<^verbatim>\<open>TcpSocket.h\<close> declares the pending packet and the members of the socket;
  \<^verbatim>\<open>TcpSocket.cpp\<close> is not among the sources. \<open>pending_size\<close> is the member
  \<^verbatim>\<open>size\<close>, \<open>pending_sizeReceived\<close> the member \<^verbatim>\<open>sizeReceived\<close> and
  \<open>pending_data\<close> the member \<^verbatim>\<open>data\<close>.
\<close>

record PendingPacket =
  pending_size :: "32 word"
  pending_sizeReceived :: nat
  pending_data :: "byte list"

definition PendingPacket_new :: PendingPacket where
  "PendingPacket_new = \<lparr>pending_size = 0, pending_sizeReceived = 0, pending_data = []\<rparr>"

record TcpSocket = Socket +
  m_pendingPacket :: PendingPacket
  m_blockToSendBuffer :: "byte list"

text \<open>
  The connection as the socket sees it: the bytes that have arrived and have not been
  read yet, and whether the peer has closed.
\<close>

record connection =
  arrived :: "byte list"
  peer_closed :: bool

text \<open>
  Modelled from the spec: \<^verbatim>\<open>TcpSocket::receive(void* data, std::size_t size, received)\<close>
  of the missing \<^verbatim>\<open>TcpSocket.cpp\<close>, on a non-blocking socket. It "fills as much as
  available up to \<open>size\<close>"; with nothing available it returns NotReady, or
  Disconnected once the peer has closed.
\<close>

definition TcpSocket_receive :: "nat \<Rightarrow> connection \<Rightarrow> Status \<times> byte list \<times> connection" where
  "TcpSocket_receive sz c =
     (if arrived c = [] then ((if peer_closed c then Disconnected else NotReady), [], c)
      else (Done, take sz (arrived c), c\<lparr>arrived := drop sz (arrived c)\<rparr>))"

text \<open>
  Modelled from the spec: the bytes of the length prefix are taken into the declared
  size as they arrive; the prefix is "4-byte big-endian", so the byte received as number
  \<open>k\<close> of the four is the byte of weight \<open>2 ^ (8 * (3 - k))\<close>.
\<close>

fun absorb_prefix :: "PendingPacket \<Rightarrow> byte list \<Rightarrow> PendingPacket" where
  "absorb_prefix pp [] = pp"
| "absorb_prefix pp (b # bs) =
     absorb_prefix
       (pp\<lparr>pending_size :=
              pending_size pp OR push_bit (8 * (3 - pending_sizeReceived pp)) (ucast b),
           pending_sizeReceived := pending_sizeReceived pp + 1\<rparr>) bs"

text \<open>
  Modelled from the spec: \<^verbatim>\<open>TcpSocket::receive(Packet&)\<close> of the missing
  \<^verbatim>\<open>TcpSocket.cpp\<close>. "(1) if the length prefix is incomplete, attempt to read the
  remaining prefix bytes; (2) once complete, attempt to read the remaining payload bytes
  into the accumulation buffer; (3) only once the accumulated bytes equal the declared
  size does the packet become available, at which point the destination Packet is
  cleared and filled, and pending-packet state resets to empty. Returns NotReady if any
  stage is incomplete after a non-blocking attempt, Disconnected if the peer closed
  mid-frame"; then the partially accumulated bytes are discarded.
\<close>

definition TcpSocket_receive_packet ::
  "TcpSocket \<times> connection \<Rightarrow> Packet \<Rightarrow> Status \<times> (TcpSocket \<times> connection) \<times> Packet" where
  "TcpSocket_receive_packet w packet =
     (case w of (s, c) \<Rightarrow>
        (let pp = m_pendingPacket s in
         case (if pending_sizeReceived pp < 4 then
                 (case TcpSocket_receive (4 - pending_sizeReceived pp) c of
                    (st, bytes, c') \<Rightarrow> (st, absorb_prefix pp bytes, c'))
               else (Done, pp, c)) of
           (st1, pp1, c1) \<Rightarrow>
             if st1 = Disconnected \<or> st1 = Error then
               (st1, (s\<lparr>m_pendingPacket := PendingPacket_new\<rparr>, c1), packet)
             else if pending_sizeReceived pp1 < 4 then
               (NotReady, (s\<lparr>m_pendingPacket := pp1\<rparr>, c1), packet)
             else
               (case (if length (pending_data pp1) < unat (pending_size pp1) then
                        (case TcpSocket_receive
                                (unat (pending_size pp1) - length (pending_data pp1)) c1 of
                           (st, bytes, c') \<Rightarrow>
                             (st, pp1\<lparr>pending_data := pending_data pp1 @ bytes\<rparr>, c'))
                      else (Done, pp1, c1)) of
                  (st2, pp2, c2) \<Rightarrow>
                    if st2 = Disconnected \<or> st2 = Error then
                      (st2, (s\<lparr>m_pendingPacket := PendingPacket_new\<rparr>, c2), packet)
                    else if length (pending_data pp2) = unat (pending_size pp2) then
                      (Done, (s\<lparr>m_pendingPacket := PendingPacket_new\<rparr>, c2),
                       onReceive (clear packet) (vector_data (pending_data pp2))
                         (of_nat (length (pending_data pp2))))
                    else (NotReady, (s\<lparr>m_pendingPacket := pp2\<rparr>, c2), packet))))"

text \<open>
  Modelled from the spec: the frame that the missing \<^verbatim>\<open>TcpSocket::send(Packet&)\<close> puts
  on the wire, "[4-byte big-endian payload length][payload bytes]".
\<close>

definition frame :: "byte list \<Rightarrow> byte list" where
  "frame payload = rev (le_bytes 4 (of_nat (length payload) :: 32 word)) @ payload"

text \<open>
  The arrival of chunks of bytes on an idle connection, after each of which the framed
  receive is called once. The result lists the status of every call.
\<close>

fun deliver ::
  "(TcpSocket \<times> connection) \<times> Packet \<Rightarrow> byte list list
     \<Rightarrow> Status list \<times> (TcpSocket \<times> connection) \<times> Packet" where
  "deliver w [] = ([], w)"
| "deliver ((s, c), packet) (chunk # chunks) =
     (case TcpSocket_receive_packet (s, c\<lparr>arrived := arrived c @ chunk\<rparr>) packet of
        (st, w', packet') \<Rightarrow>
          (case deliver (w', packet') chunks of (sts, w'') \<Rightarrow> (st # sts, w'')))"

text \<open>
  A system for concrete runs: \<^verbatim>\<open>socket\<close> returns the handle 3, \<^verbatim>\<open>bind\<close>, \<^verbatim>\<open>listen\<close>
  and \<^verbatim>\<open>sendto\<close> succeed, and \<^verbatim>\<open>recvfrom\<close> fails with \<^verbatim>\<open>EAGAIN\<close>.
\<close>

definition sys_example :: os where
  "sys_example =
     \<lparr>socket_returns = 3, bind_returns = 0, listen_returns = 0, sendto_returns = 0,
      recvfrom_returns = - 1, recvfrom_datagram = [],
      recvfrom_sender = \<lparr>sin_addr = 0, sin_port = 0\<rparr>, os_errno = EAGAIN\<rparr>"

definition TcpSocket_new :: TcpSocket where
  "TcpSocket_new =
     \<lparr>m_type = Tcp, m_socket = invalidSocket, m_isBlocking = True,
      m_pendingPacket = PendingPacket_new, m_blockToSendBuffer = []\<rparr>"

text \<open>
  The pending packet once the first \<open>j\<close> bytes of a frame have been received: up to
  four bytes are in the length prefix, the others in the accumulated payload.
\<close>

definition pending_after :: "byte list \<Rightarrow> nat \<Rightarrow> PendingPacket" where
  "pending_after bytes j =
     (if j \<le> 4 then absorb_prefix PendingPacket_new (take j bytes)
      else (absorb_prefix PendingPacket_new (take 4 bytes))
             \<lparr>pending_data := take (j - 4) (drop 4 bytes)\<rparr>)"


section \<open>Byte order lemmas\<close>

lemma length_le_bytes: "length (le_bytes n w) = n"
  by (induction n arbitrary: w) simp_all

lemma from_le_le_bytes: "from_le (le_bytes n w) = take_bit (8 * n) (w :: 'a::len word)"
proof (induction n arbitrary: w)
  case 0 show ?case by simp
next
  case (Suc n)
  show ?case
    apply (simp add: Suc)
    apply (rule bit_word_eqI)
    apply (auto simp: bit_simps)
    done
qed

lemma bit_from_le: "bit (from_le bs :: 'a::len word) k \<Longrightarrow> k < 8 * length bs"
proof (induction bs arbitrary: k)
  case Nil then show ?case by simp
next
  case (Cons b bs)
  show ?case
  proof (cases "k < 8")
    case True then show ?thesis by simp
  next
    case False
    with Cons.prems have "bit (from_le bs :: 'a word) (k - 8)"
      by (auto simp: bit_simps dest: bit_imp_le_length)
    from Cons.IH [OF this] False show ?thesis by simp
  qed
qed

lemma le_bytes_from_le:
  "8 * length bs \<le> LENGTH('a::len) \<Longrightarrow> le_bytes (length bs) (from_le bs :: 'a word) = bs"
proof (induction bs)
  case Nil show ?case by simp
next
  case (Cons b bs)
  define X :: "'a word" where "X = ucast b OR push_bit 8 (from_le bs)"
  have 1: "ucast X = b"
    unfolding X_def using Cons.prems by (intro bit_word_eqI) (auto simp: bit_simps)
  have 2: "drop_bit 8 X = from_le bs"
  proof (rule bit_word_eqI)
    fix n assume n: "n < LENGTH('a)"
    show "bit (drop_bit 8 X) n = bit (from_le bs :: 'a word) n"
    proof (cases "bit (from_le bs :: 'a word) n")
      case True
      from bit_from_le [OF True] Cons.prems have "8 + n < LENGTH('a)" by simp
      with True show ?thesis unfolding X_def by (auto simp: bit_simps)
    next
      case False
      then show ?thesis unfolding X_def by (auto simp: bit_simps dest: bit_imp_le_length)
    qed
  qed
  have 3: "from_le (b # bs) = X" by (simp add: X_def)
  show ?case unfolding 3 using Cons 1 2 by simp
qed

lemma bswap_bswap:
  assumes "8 * n = LENGTH('a::len)"
  shows "bswap n (bswap n (w :: 'a word)) = w"
proof -
  have "le_bytes n (from_le (rev (le_bytes n w)) :: 'a word) = rev (le_bytes n w)"
    using le_bytes_from_le [of "rev (le_bytes n w)", where 'a='a] assms
    by (simp add: length_le_bytes)
  then show ?thesis
    using assms by (simp add: bswap_def from_le_le_bytes)
qed

lemma object_value_bytes:
  "8 * n = LENGTH('a::len) \<Longrightarrow> object_value h (object_bytes h n (w :: 'a word)) = w"
  by (cases h) (simp_all add: object_value_def object_bytes_def from_le_le_bytes)

lemma ntohl_htonl: "ntohl h (htonl h w) = w"
  by (cases h) (simp_all add: ntohl_def htonl_def bswap_bswap)

lemma ntohs_htons: "ntohs h (htons h w) = w"
  by (cases h) (simp_all add: ntohs_def htons_def bswap_bswap)

lemma length_object_bytes: "length (object_bytes h n w) = n"
  by (cases h) (simp_all add: object_bytes_def length_le_bytes)

lemma wire_uint32: "object_bytes h 4 (htonl h w) = rev (le_bytes 4 w)"
  apply (cases h) 
  apply (simp_all add: object_bytes_def htonl_def bswap_def)
  using le_bytes_from_le [of "rev (le_bytes 4 w)", where 'a=32]
  apply (simp add: length_le_bytes)
  done

lemma ToInteger_fold_from_le:
  "ToInteger_fold r i bs = r OR push_bit (8 * i) (from_le bs)"
proof (induction bs arbitrary: r i)
  case Nil show ?case by simp
next
  case (Cons b bs)
  have "push_bit (8 * i) (ucast b OR push_bit 8 (from_le bs :: 'a word)) =
        push_bit (8 * i) (ucast b) OR push_bit (8 * Suc i) (from_le bs :: 'a word)"
    by (simp add: add.commute)
  with Cons show ?case by (simp add: or.assoc)
qed

lemma ToInteger_from_le: "ToInteger bs = from_le bs"
  by (simp add: ToInteger_def ToInteger_fold_from_le)

lemma ucast_mask_byte: "ucast (w AND 0xFF :: 64 word) = (ucast w :: byte)"
proof -
  have "w AND 0xFF = take_bit 8 w"
    by (simp add: take_bit_eq_mask mask_eq_exp_minus_1)
  then show ?thesis
    by (simp only:) (intro bit_word_eqI, auto simp: bit_simps)
qed

lemma ucast_signed_drop_byte:
  "k \<le> 56 \<Longrightarrow> ucast (signed_drop_bit k (w :: 64 word)) = (ucast (drop_bit k w) :: byte)"
  by (intro bit_word_eqI) (auto simp: bit_simps)

lemma le_bytes8: "le_bytes 8 (w :: 64 word) =
  [ucast w, ucast (drop_bit 8 w), ucast (drop_bit 16 w), ucast (drop_bit 24 w),
   ucast (drop_bit 32 w), ucast (drop_bit 40 w), ucast (drop_bit 48 w), ucast (drop_bit 56 w)]"
  by (simp add: eval_nat_numeral)

lemma from_le_wire_uint64:
  "from_le [ucast (w AND 0xFF), ucast (drop_bit 8 w AND 0xFF), ucast (drop_bit 16 w AND 0xFF),
     ucast (drop_bit 24 w AND 0xFF), ucast (drop_bit 32 w AND 0xFF), ucast (drop_bit 40 w AND 0xFF),
     ucast (drop_bit 48 w AND 0xFF), ucast (drop_bit 56 w AND 0xFF)] = (w :: 64 word)"
proof -
  have "from_le (le_bytes 8 w) = w"
    by (simp add: from_le_le_bytes take_bit_word_eq_self)
  then show ?thesis
    by (simp only: ucast_mask_byte le_bytes8)
qed

lemma from_le_wire_int64:
  "from_le [ucast (w AND 0xFF), ucast (signed_drop_bit 8 w AND 0xFF),
     ucast (signed_drop_bit 16 w AND 0xFF), ucast (signed_drop_bit 24 w AND 0xFF),
     ucast (signed_drop_bit 32 w AND 0xFF), ucast (signed_drop_bit 40 w AND 0xFF),
     ucast (signed_drop_bit 48 w AND 0xFF), ucast (signed_drop_bit 56 w AND 0xFF)] = (w :: 64 word)"
proof -
  have "from_le (le_bytes 8 w) = w"
    by (simp add: from_le_le_bytes take_bit_word_eq_self)
  then show ?thesis
    by (simp only: ucast_mask_byte le_bytes8 ucast_signed_drop_byte [of 8] ucast_signed_drop_byte [of 16]
        ucast_signed_drop_byte [of 24] ucast_signed_drop_byte [of 32] ucast_signed_drop_byte [of 40]
        ucast_signed_drop_byte [of 48] ucast_signed_drop_byte [of 56])
qed

section \<open>Packet: insertion followed by extraction\<close>

lemmas rt_defs = restores_def Packet_new_def append_def checkSize_def
      bytes_at_readPos_def advance_def Let_def

lemma rt_uint8: "restores (extract_uint8 (insert_uint8 Packet_new v) x) v"
  by (simp add: extract_uint8_def insert_uint8_def rt_defs)

lemma rt_int8: "restores (extract_int8 (insert_int8 Packet_new v) x) v"
  by (simp add: extract_int8_def insert_int8_def rt_defs)

lemma rt_bool: "restores (extract_bool (insert_bool Packet_new v) x) v"
  by (simp add: extract_bool_def insert_bool_def extract_uint8_def insert_uint8_def rt_defs)

lemma rt_uint16: "restores (extract_uint16 h (insert_uint16 h Packet_new v) x) v"
  by (simp add: extract_uint16_def insert_uint16_def rt_defs length_object_bytes
      object_value_bytes ntohs_htons)

lemma rt_int16: "restores (extract_int16 h (insert_int16 h Packet_new v) x) v"
  by (simp add: extract_int16_def insert_int16_def rt_defs length_object_bytes
      object_value_bytes ntohs_htons)

lemma rt_uint32: "restores (extract_uint32 h (insert_uint32 h Packet_new v) x) v"
  by (simp add: extract_uint32_def insert_uint32_def rt_defs length_object_bytes
      object_value_bytes ntohl_htonl)

lemma rt_int32: "restores (extract_int32 h (insert_int32 h Packet_new v) x) v"
  by (simp add: extract_int32_def insert_int32_def rt_defs length_object_bytes
      object_value_bytes ntohl_htonl)

lemma rt_float: "restores (extract_float h (insert_float h Packet_new v) x) v"
  by (simp add: extract_float_def insert_float_def rt_defs length_object_bytes
      object_value_bytes)

lemma rt_double: "restores (extract_double h (insert_double h Packet_new v) x) v"
  by (simp add: extract_double_def insert_double_def rt_defs length_object_bytes
      object_value_bytes)

lemma rt_uint64: "restores (extract_uint64 (insert_uint64 Packet_new v) x) v"
  by (simp add: extract_uint64_def insert_uint64_def rt_defs ToInteger_from_le
      from_le_wire_uint64 del: from_le.simps)

lemma rt_int64: "restores (extract_int64 (insert_int64 Packet_new v) x) v"
  by (simp add: extract_int64_def insert_int64_def rt_defs ToInteger_from_le
      from_le_wire_int64 del: from_le.simps)

text \<open>
  C1. For each of the eleven scalar types, inserting a value into an empty packet and
  extracting it with the overload of the same type returns the value, whatever the
  variable held before, and leaves the packet valid; on a host of either byte order.
\<close>

theorem scalar_round_trip:
  "restores (extract_bool (insert_bool Packet_new vb) xb) vb
   \<and> restores (extract_int8 (insert_int8 Packet_new vi8) xi8) vi8
   \<and> restores (extract_uint8 (insert_uint8 Packet_new vu8) xu8) vu8
   \<and> restores (extract_int16 h (insert_int16 h Packet_new vi16) xi16) vi16
   \<and> restores (extract_uint16 h (insert_uint16 h Packet_new vu16) xu16) vu16
   \<and> restores (extract_int32 h (insert_int32 h Packet_new vi32) xi32) vi32
   \<and> restores (extract_uint32 h (insert_uint32 h Packet_new vu32) xu32) vu32
   \<and> restores (extract_int64 (insert_int64 Packet_new vi64) xi64) vi64
   \<and> restores (extract_uint64 (insert_uint64 Packet_new vu64) xu64) vu64
   \<and> restores (extract_float h (insert_float h Packet_new vf) xf) vf
   \<and> restores (extract_double h (insert_double h Packet_new vd) xd) vd"
  by (intro conjI rt_bool rt_int8 rt_uint8 rt_int16 rt_uint16 rt_int32 rt_uint32
      rt_int64 rt_uint64 rt_float rt_double)

section \<open>Packet: the validity flag\<close>

lemma checkSize_invalid: "\<not> m_isValid p \<Longrightarrow> checkSize p n = (False, p)"
  by (cases p) (simp add: checkSize_def)

lemma checkSize_TrueD:
  "checkSize p n = (True, q) \<Longrightarrow>
     q = p \<and> m_isValid p \<and> unat (m_readPos p) + unat n \<le> length (m_data p)
     \<and> unat (m_readPos p) + unat n < 2 ^ 64"
proof -
  assume a: "checkSize p n = (True, q)"
  then have v: "m_isValid p" and le: "unat (m_readPos p + n) \<le> length (m_data p)"
    and no: "m_readPos p \<le> m_readPos p + n"
    by (auto simp: checkSize_def Let_def not_less)
  from no have s: "unat (m_readPos p + n) = unat (m_readPos p) + unat n"
    by unat_arith
  have "unat (m_readPos p + n) < 2 ^ 64"
    using unsigned_less [of "m_readPos p + n", where 'a=nat] by simp
  moreover from a v have "q = p" by (cases p) (auto simp: checkSize_def Let_def)
  ultimately show ?thesis using v le s by simp
qed

lemma checkSize_FalseD: "checkSize p n = (False, q) \<Longrightarrow> \<not> m_isValid q"
  by (auto simp: checkSize_def Let_def)

lemma checkSize_TrueI:
  "m_isValid p \<Longrightarrow> unat (m_readPos p) + unat n \<le> length (m_data p) \<Longrightarrow>
   unat (m_readPos p) + unat n < 2 ^ 64 \<Longrightarrow> checkSize p n = (True, p)"
proof -
  assume v: "m_isValid p" and le: "unat (m_readPos p) + unat n \<le> length (m_data p)"
    and lt: "unat (m_readPos p) + unat n < 2 ^ 64"
  from lt have s: "unat (m_readPos p + n) = unat (m_readPos p) + unat n"
    using unat_add_lem [of "m_readPos p" n] by simp
  then have "\<not> m_readPos p + n < m_readPos p"
    by (simp add: word_less_nat_alt)
  with v le s show ?thesis by (cases p) (simp add: checkSize_def Let_def)
qed

lemma m_isValid_advance: "m_isValid (advance p n) = m_isValid p"
  by (simp add: advance_def)

lemma m_isValid_append: "m_isValid (append p d n) = m_isValid p"
  by (simp add: append_def split: option.split)

lemma extract_bool_valid: "m_isValid (fst (extract_bool p x)) \<Longrightarrow> m_isValid p"
  by (auto simp: extract_bool_def extract_uint8_def advance_def Let_def split: prod.splits bool.splits if_splits
      dest: checkSize_TrueD checkSize_FalseD)

lemma extract_bool_failed: "\<not> m_isValid (fst (extract_bool p x)) \<Longrightarrow> snd (extract_bool p x) = x"
  by (auto simp: extract_bool_def extract_uint8_def advance_def Let_def split: prod.splits bool.splits if_splits
      dest: checkSize_TrueD checkSize_FalseD)

lemma extract_int8_valid: "m_isValid (fst (extract_int8 p x)) \<Longrightarrow> m_isValid p"
  by (auto simp: extract_int8_def advance_def Let_def split: prod.splits bool.splits if_splits
      dest: checkSize_TrueD checkSize_FalseD)

lemma extract_int8_failed: "\<not> m_isValid (fst (extract_int8 p x)) \<Longrightarrow> snd (extract_int8 p x) = x"
  by (auto simp: extract_int8_def advance_def Let_def split: prod.splits bool.splits if_splits
      dest: checkSize_TrueD checkSize_FalseD)

lemma extract_uint8_valid: "m_isValid (fst (extract_uint8 p x)) \<Longrightarrow> m_isValid p"
  by (auto simp: extract_uint8_def advance_def Let_def split: prod.splits bool.splits if_splits
      dest: checkSize_TrueD checkSize_FalseD)

lemma extract_uint8_failed: "\<not> m_isValid (fst (extract_uint8 p x)) \<Longrightarrow> snd (extract_uint8 p x) = x"
  by (auto simp: extract_uint8_def advance_def Let_def split: prod.splits bool.splits if_splits
      dest: checkSize_TrueD checkSize_FalseD)

lemma extract_int16_valid: "m_isValid (fst (extract_int16 h p x)) \<Longrightarrow> m_isValid p"
  by (auto simp: extract_int16_def advance_def Let_def split: prod.splits bool.splits if_splits
      dest: checkSize_TrueD checkSize_FalseD)

lemma extract_int16_failed: "\<not> m_isValid (fst (extract_int16 h p x)) \<Longrightarrow> snd (extract_int16 h p x) = x"
  by (auto simp: extract_int16_def advance_def Let_def split: prod.splits bool.splits if_splits
      dest: checkSize_TrueD checkSize_FalseD)

lemma extract_uint16_valid: "m_isValid (fst (extract_uint16 h p x)) \<Longrightarrow> m_isValid p"
  by (auto simp: extract_uint16_def advance_def Let_def split: prod.splits bool.splits if_splits
      dest: checkSize_TrueD checkSize_FalseD)

lemma extract_uint16_failed: "\<not> m_isValid (fst (extract_uint16 h p x)) \<Longrightarrow> snd (extract_uint16 h p x) = x"
  by (auto simp: extract_uint16_def advance_def Let_def split: prod.splits bool.splits if_splits
      dest: checkSize_TrueD checkSize_FalseD)

lemma extract_int32_valid: "m_isValid (fst (extract_int32 h p x)) \<Longrightarrow> m_isValid p"
  by (auto simp: extract_int32_def advance_def Let_def split: prod.splits bool.splits if_splits
      dest: checkSize_TrueD checkSize_FalseD)

lemma extract_int32_failed: "\<not> m_isValid (fst (extract_int32 h p x)) \<Longrightarrow> snd (extract_int32 h p x) = x"
  by (auto simp: extract_int32_def advance_def Let_def split: prod.splits bool.splits if_splits
      dest: checkSize_TrueD checkSize_FalseD)

lemma extract_uint32_valid: "m_isValid (fst (extract_uint32 h p x)) \<Longrightarrow> m_isValid p"
  by (auto simp: extract_uint32_def advance_def Let_def split: prod.splits bool.splits if_splits
      dest: checkSize_TrueD checkSize_FalseD)

lemma extract_uint32_failed: "\<not> m_isValid (fst (extract_uint32 h p x)) \<Longrightarrow> snd (extract_uint32 h p x) = x"
  by (auto simp: extract_uint32_def advance_def Let_def split: prod.splits bool.splits if_splits
      dest: checkSize_TrueD checkSize_FalseD)

lemma extract_int64_valid: "m_isValid (fst (extract_int64 p x)) \<Longrightarrow> m_isValid p"
  by (auto simp: extract_int64_def advance_def Let_def split: prod.splits bool.splits if_splits
      dest: checkSize_TrueD checkSize_FalseD)

lemma extract_int64_failed: "\<not> m_isValid (fst (extract_int64 p x)) \<Longrightarrow> snd (extract_int64 p x) = x"
  by (auto simp: extract_int64_def advance_def Let_def split: prod.splits bool.splits if_splits
      dest: checkSize_TrueD checkSize_FalseD)

lemma extract_uint64_valid: "m_isValid (fst (extract_uint64 p x)) \<Longrightarrow> m_isValid p"
  by (auto simp: extract_uint64_def advance_def Let_def split: prod.splits bool.splits if_splits
      dest: checkSize_TrueD checkSize_FalseD)

lemma extract_uint64_failed: "\<not> m_isValid (fst (extract_uint64 p x)) \<Longrightarrow> snd (extract_uint64 p x) = x"
  by (auto simp: extract_uint64_def advance_def Let_def split: prod.splits bool.splits if_splits
      dest: checkSize_TrueD checkSize_FalseD)

lemma extract_float_valid: "m_isValid (fst (extract_float h p x)) \<Longrightarrow> m_isValid p"
  by (auto simp: extract_float_def advance_def Let_def split: prod.splits bool.splits if_splits
      dest: checkSize_TrueD checkSize_FalseD)

lemma extract_float_failed: "\<not> m_isValid (fst (extract_float h p x)) \<Longrightarrow> snd (extract_float h p x) = x"
  by (auto simp: extract_float_def advance_def Let_def split: prod.splits bool.splits if_splits
      dest: checkSize_TrueD checkSize_FalseD)

lemma extract_double_valid: "m_isValid (fst (extract_double h p x)) \<Longrightarrow> m_isValid p"
  by (auto simp: extract_double_def advance_def Let_def split: prod.splits bool.splits if_splits
      dest: checkSize_TrueD checkSize_FalseD)

lemma extract_double_failed: "\<not> m_isValid (fst (extract_double h p x)) \<Longrightarrow> snd (extract_double h p x) = x"
  by (auto simp: extract_double_def advance_def Let_def split: prod.splits bool.splits if_splits
      dest: checkSize_TrueD checkSize_FalseD)

lemma unat_ucast32: "unat (ucast (l :: 32 word) :: 64 word) = unat l"
  by (simp add: unsigned_ucast_eq take_bit_nat_eq_self_iff
      order_less_trans [OF unsigned_less [of l, where 'a=nat]])

lemma unat_ucast32_times4: "unat (ucast (l :: 32 word) * 4 :: 64 word) = 4 * unat l"
proof -
  have "unat l < 2 ^ 32" using unsigned_less [of l, where 'a=nat] by simp
  then have "unat (ucast l :: 64 word) * unat (4 :: 64 word) < 2 ^ LENGTH(64)"
    by (simp add: unat_ucast32)
  then have "unat (ucast l * 4 :: 64 word) = unat (ucast l :: 64 word) * unat (4 :: 64 word)"
    by (simp only: unat_mult_lem)
  then show ?thesis by (simp add: unat_ucast32)
qed

lemma extract_uint32_ok:
  assumes "m_isValid p" "unat (m_readPos p) + 4 \<le> length (m_data p)"
    "unat (m_readPos p) + 4 < 2 ^ 64"
  shows "fst (extract_uint32 h p x) = advance p 4"
proof -
  have "checkSize p 4 = (True, p)"
    using assms by (intro checkSize_TrueI) simp_all
  then show ?thesis by (simp add: extract_uint32_def)
qed

lemma unat_readPos_advance4:
  "unat (m_readPos p) + 4 < 2 ^ 64 \<Longrightarrow> unat (m_readPos (advance p 4)) = unat (m_readPos p) + 4"
  using unat_add_lem [of "m_readPos p" "4 :: 64 word"] by (simp add: advance_def)

lemma advance_data: "m_data (advance p n) = m_data p"
  by (simp add: advance_def)

lemma extract_wchars_push_stays_valid:
  "m_isValid p \<Longrightarrow> unat (m_readPos p) + 4 * n \<le> length (m_data p) \<Longrightarrow>
   unat (m_readPos p) + 4 * n < 2 ^ 64 \<Longrightarrow>
   m_isValid (fst (extract_wchars_push h n p data))"
proof (induction n arbitrary: p data)
  case 0 then show ?case by simp
next
  case (Suc n)
  obtain p' c where e: "extract_uint32 h p 0 = (p', c)" by (cases "extract_uint32 h p 0")
  have "fst (extract_uint32 h p 0) = advance p 4"
    using Suc.prems by (intro extract_uint32_ok) simp_all
  with e have p': "p' = advance p 4" by simp
  have r: "unat (m_readPos p') = unat (m_readPos p) + 4"
    unfolding p' using Suc.prems by (intro unat_readPos_advance4) simp
  have "m_isValid (fst (extract_wchars_push h n p' (data @ [c])))"
    using Suc.prems r by (intro Suc.IH) (simp_all add: p' m_isValid_advance advance_data)
  with e show ?case by simp
qed

lemma extract_wchars_at_stays_valid:
  "m_isValid p \<Longrightarrow> unat (m_readPos p) + 4 * n \<le> length (m_data p) \<Longrightarrow>
   unat (m_readPos p) + 4 * n < 2 ^ 64 \<Longrightarrow>
   m_isValid (fst (extract_wchars_at h n i p data))"
proof (induction n arbitrary: p data i)
  case 0 then show ?case by simp
next
  case (Suc n)
  obtain p' c where e: "extract_uint32 h p 0 = (p', c)" by (cases "extract_uint32 h p 0")
  have "fst (extract_uint32 h p 0) = advance p 4"
    using Suc.prems by (intro extract_uint32_ok) simp_all
  with e have p': "p' = advance p 4" by simp
  have r: "unat (m_readPos p') = unat (m_readPos p) + 4"
    unfolding p' using Suc.prems by (intro unat_readPos_advance4) simp
  have "m_isValid (fst (extract_wchars_at h n (Suc i) p' (store data i c)))"
    using Suc.prems r by (intro Suc.IH) (simp_all add: p' m_isValid_advance advance_data)
  with e show ?case by simp
qed

lemma extract_wchars_push_valid:
  "m_isValid (fst (extract_wchars_push h n p data)) \<Longrightarrow> m_isValid p"
proof (induction n arbitrary: p data)
  case 0 then show ?case by simp
next
  case (Suc n)
  obtain p' c where e: "extract_uint32 h p 0 = (p', c)" by (cases "extract_uint32 h p 0")
  with Suc.prems have "m_isValid (fst (extract_wchars_push h n p' (data @ [c])))" by simp
  then have "m_isValid p'" by (rule Suc.IH)
  with e show ?case using extract_uint32_valid [of h p 0] by simp
qed

lemma extract_wchars_at_valid:
  "m_isValid (fst (extract_wchars_at h n i p data)) \<Longrightarrow> m_isValid p"
proof (induction n arbitrary: p data i)
  case 0 then show ?case by simp
next
  case (Suc n)
  obtain p' c where e: "extract_uint32 h p 0 = (p', c)" by (cases "extract_uint32 h p 0")
  with Suc.prems have "m_isValid (fst (extract_wchars_at h n (Suc i) p' (store data i c)))" by simp
  then have "m_isValid p'" by (rule Suc.IH)
  with e show ?case using extract_uint32_valid [of h p 0] by simp
qed

lemma checkSize_wide_loop_bounds:
  assumes "checkSize p1 (ucast (l :: 32 word) * 4) = (True, p2)"
  shows "m_isValid p2 \<and> unat (m_readPos p2) + 4 * unat l \<le> length (m_data p2)
         \<and> unat (m_readPos p2) + 4 * unat l < 2 ^ 64"
  using checkSize_TrueD [OF assms] by (simp add: unat_ucast32_times4)

lemma extract_cstr_valid: "m_isValid (fst (extract_cstr h p x)) \<Longrightarrow> m_isValid p"
  using extract_uint32_valid [of h p 0]
  by (auto simp: extract_cstr_def m_isValid_advance split: prod.splits bool.splits if_splits
      dest: checkSize_TrueD checkSize_FalseD)

lemma extract_cstr_failed:
  "\<not> m_isValid (fst (extract_cstr h p x)) \<Longrightarrow> snd (extract_cstr h p x) = x"
  by (auto simp: extract_cstr_def m_isValid_advance split: prod.splits bool.splits if_splits
      dest: checkSize_TrueD checkSize_FalseD)

lemma extract_string_valid: "m_isValid (fst (extract_string h p x)) \<Longrightarrow> m_isValid p"
  using extract_uint32_valid [of h p 0]
  by (auto simp: extract_string_def m_isValid_advance Let_def split: prod.splits bool.splits if_splits
      dest: checkSize_TrueD checkSize_FalseD)

lemma extract_string_failed:
  "\<not> m_isValid (fst (extract_string h p x)) \<Longrightarrow> snd (extract_string h p x) = []"
  by (auto simp: extract_string_def m_isValid_advance Let_def split: prod.splits bool.splits if_splits
      dest: checkSize_TrueD checkSize_FalseD)

lemma extract_wcstr_valid: "m_isValid (fst (extract_wcstr h p x)) \<Longrightarrow> m_isValid p"
  using extract_uint32_valid [of h p 0]
  by (auto simp: extract_wcstr_def split: prod.splits bool.splits if_splits
      dest: checkSize_TrueD checkSize_FalseD)

lemma extract_wcstr_failed:
  assumes "\<not> m_isValid (fst (extract_wcstr h p x))"
  shows "snd (extract_wcstr h p x) = x"
proof -
  obtain p1 l where e: "extract_uint32 h p 0 = (p1, l)" by (cases "extract_uint32 h p 0")
  obtain b p2 where c: "checkSize p1 (ucast l * 4) = (b, p2)"
    by (cases "checkSize p1 (ucast l * 4)")
  show ?thesis
  proof (cases "l > 0 \<and> b")
    case True
    with c have c': "checkSize p1 (ucast l * 4) = (True, p2)" by simp
    have "m_isValid (fst (extract_wchars_at h (unat l) 0 p2 x))"
      using checkSize_wide_loop_bounds [OF c'] by (intro extract_wchars_at_stays_valid) simp_all
    with assms e c' True show ?thesis
      by (simp add: extract_wcstr_def split: prod.splits)
  next
    case False
    with e c show ?thesis by (auto simp: extract_wcstr_def)
  qed
qed

lemma extract_wstring_valid: "m_isValid (fst (extract_wstring h p x)) \<Longrightarrow> m_isValid p"
  using extract_uint32_valid [of h p 0]
  by (auto simp: extract_wstring_def Let_def split: prod.splits bool.splits if_splits
      dest: checkSize_TrueD checkSize_FalseD)

lemma extract_wstring_failed:
  assumes "\<not> m_isValid (fst (extract_wstring h p x))"
  shows "snd (extract_wstring h p x) = []"
proof -
  obtain p1 l where e: "extract_uint32 h p 0 = (p1, l)" by (cases "extract_uint32 h p 0")
  obtain b p2 where c: "checkSize p1 (ucast l * 4) = (b, p2)"
    by (cases "checkSize p1 (ucast l * 4)")
  show ?thesis
  proof (cases "l > 0 \<and> b")
    case True
    with c have c': "checkSize p1 (ucast l * 4) = (True, p2)" by simp
    have "m_isValid (fst (extract_wchars_push h (unat l) p2 []))"
      using checkSize_wide_loop_bounds [OF c'] by (intro extract_wchars_push_stays_valid) simp_all
    with assms e c' True show ?thesis
      by (simp add: extract_wstring_def)
  next
    case False
    with e c show ?thesis by (auto simp: extract_wstring_def)
  qed
qed

lemma extract_u32string_eq: "extract_u32string h p x = extract_wstring h p x"
  by (simp add: extract_u32string_def extract_wstring_def)

lemma m_isValid_foldl_insert_uint32:
  "m_isValid (foldl (insert_uint32 h) p cs) = m_isValid p"
  by (induction cs arbitrary: p) (simp_all add: insert_uint32_def m_isValid_append)

lemma m_isValid_insert_operand: "m_isValid (insert_operand h p x) = m_isValid p"
  by (cases x)
    (simp_all add: insert_bool_def insert_int8_def insert_uint8_def insert_int16_def
      insert_uint16_def insert_int32_def insert_uint32_def insert_int64_def insert_uint64_def
      insert_float_def insert_double_def insert_cstr_def insert_string_def insert_wcstr_def
      insert_wstring_def insert_u32string_def m_isValid_append m_isValid_foldl_insert_uint32
      Let_def)

lemma extract_operand_valid: "m_isValid (fst (extract_operand h p x)) \<Longrightarrow> m_isValid p"
  by (cases x)
    (auto dest: extract_bool_valid extract_int8_valid extract_uint8_valid extract_int16_valid
      extract_uint16_valid extract_int32_valid extract_uint32_valid extract_int64_valid
      extract_uint64_valid extract_float_valid extract_double_valid extract_cstr_valid
      extract_string_valid extract_wcstr_valid extract_wstring_valid
      simp: extract_u32string_eq)

lemma apply_op_keeps_invalid:
  "op \<noteq> Clear \<Longrightarrow> \<not> m_isValid p \<Longrightarrow> \<not> m_isValid (apply_op h p op)"
  by (cases op)
    (auto simp: m_isValid_insert_operand m_isValid_append onReceive_def
      dest: extract_operand_valid)

lemma run_ops_keeps_invalid:
  "Clear \<notin> set ops \<Longrightarrow> \<not> m_isValid p \<Longrightarrow> \<not> m_isValid (run_ops h p ops)"
  unfolding run_ops_def
proof (induction ops arbitrary: p)
  case Nil then show ?case by simp
next
  case (Cons op ops)
  then have "\<not> m_isValid (apply_op h p op)"
    by (intro apply_op_keeps_invalid) auto
  with Cons show ?case by simp
qed

text \<open>
  C2. Once the validity flag is false, no sequence of extractions, insertions, appends,
  \<^verbatim>\<open>onReceive\<close> or \<^verbatim>\<open>onSend\<close> calls makes it true again; \<^verbatim>\<open>clear\<close> does.
\<close>

theorem invalid_is_sticky:
  assumes "\<not> m_isValid p" and "Clear \<notin> set ops"
  shows "\<not> m_isValid (run_ops h p ops) \<and> m_isValid (clear (run_ops h p ops))"
  using assms by (simp add: run_ops_keeps_invalid clear_def)

theorem invalid_is_sticky_witness:
  "\<not> m_isValid (fst (extract_uint32 LittleEndian Packet_new 0))
   \<and> Clear \<notin> set [Insert (VUint8 1), Extract (VUint8 0), Append (Some [1]) 1]
   \<and> \<not> m_isValid (run_ops LittleEndian (fst (extract_uint32 LittleEndian Packet_new 0))
          [Insert (VUint8 1), Extract (VUint8 0), Append (Some [1]) 1])
   \<and> m_isValid (clear (run_ops LittleEndian (fst (extract_uint32 LittleEndian Packet_new 0))
          [Insert (VUint8 1), Extract (VUint8 0), Append (Some [1]) 1]))"
proof -
  have h1: "\<not> m_isValid (fst (extract_uint32 LittleEndian Packet_new 0))"
    by (simp add: extract_uint32_def checkSize_def Packet_new_def Let_def)
  have h2: "Clear \<notin> set [Insert (VUint8 1), Extract (VUint8 0), Append (Some [1]) 1]"
    by simp
  from invalid_is_sticky [OF h1 h2, of LittleEndian] h1 h2 show ?thesis by blast
qed

text \<open>
  C3, as the specification states it, fails on the three \<^verbatim>\<open>std::string\<close>,
  \<^verbatim>\<open>std::wstring\<close> and \<^verbatim>\<open>std::u32string\<close> overloads: they call \<^verbatim>\<open>data.clear()\<close>
  before the bounds test, so a failed extraction, and an extraction from a packet that
  is already invalid, leaves the caller's string empty.
\<close>

theorem string_extraction_clears_output:
  "\<not> m_isValid (fst (extract_string LittleEndian Packet_new [0x61, 0x62]))
   \<and> snd (extract_string LittleEndian Packet_new [0x61, 0x62]) \<noteq> [0x61, 0x62]
   \<and> \<not> m_isValid (Packet_new\<lparr>m_isValid := False\<rparr>)
   \<and> snd (extract_string LittleEndian (Packet_new\<lparr>m_isValid := False\<rparr>) [0x61, 0x62])
       \<noteq> [0x61, 0x62]"
  by (simp add: extract_string_def extract_uint32_def checkSize_def Packet_new_def Let_def)

text \<open>
  C3, amended. If the packet is invalid after an extraction (it was invalid before, or a
  bounds test failed), the scalar, \<^verbatim>\<open>char*\<close> and \<^verbatim>\<open>wchar_t*\<close> overloads have left the
  caller's variable as it was, and the three string overloads have left it empty.
\<close>

theorem failed_extraction_output:
  assumes "\<not> m_isValid (fst (extract_operand h p x))"
  shows "snd (extract_operand h p x) =
           (case x of VString s \<Rightarrow> VString [] | VWString s \<Rightarrow> VWString []
            | VU32String s \<Rightarrow> VU32String [] | _ \<Rightarrow> x)"
  using assms
  by (cases x)
    (simp_all add: extract_bool_failed extract_int8_failed extract_uint8_failed
      extract_int16_failed extract_uint16_failed extract_int32_failed extract_uint32_failed
      extract_int64_failed extract_uint64_failed extract_float_failed extract_double_failed
      extract_cstr_failed extract_string_failed extract_wcstr_failed extract_wstring_failed
      extract_u32string_eq)

theorem failed_extraction_output_witness:
  "\<not> m_isValid (fst (extract_operand LittleEndian Packet_new (VUint32 7)))
   \<and> snd (extract_operand LittleEndian Packet_new (VUint32 7)) = VUint32 7"
proof -
  have h: "\<not> m_isValid (fst (extract_operand LittleEndian Packet_new (VUint32 7)))"
    by (simp add: extract_uint32_def checkSize_def Packet_new_def Let_def)
  have c: "snd (extract_operand LittleEndian Packet_new (VUint32 7)) = VUint32 7"
    using failed_extraction_output [OF h] by (simp only: operand.case)
  from h c show ?thesis by blast
qed

section \<open>Packet: append\<close>

text \<open>
  C10. \<^verbatim>\<open>append\<close> with a null pointer, or with a size of zero, returns the packet as it
  was: buffer, read position, send position and validity flag.
\<close>

theorem append_null_or_empty_unchanged:
  "append p None sizeInBytes = p \<and> append p data 0 = p"
  by (simp add: append_def split: option.split)

section \<open>Socket, UdpSocket and TcpListener\<close>

text \<open>
  C8. After \<^verbatim>\<open>close\<close> the handle is the invalid sentinel, and a second \<^verbatim>\<open>close\<close> changes
  neither the socket nor the log of system calls: it releases nothing.
\<close>

theorem close_idempotent:
  "m_socket (fst (close w)) = invalidSocket \<and> close (close w) = close w"
  by (cases w) (simp add: close_def)

lemma sendto_close: "filter is_sendto (snd (close w)) = filter is_sendto (snd w)"
  by (cases w) (simp add: close_def)

lemma sendto_create: "filter is_sendto (snd (create sys w)) = filter is_sendto (snd w)"
  by (cases w) (simp add: create_def create_from_def setBlocking_def Let_def)

lemma bind_close: "filter is_bind_or_listen (snd (close w)) = filter is_bind_or_listen (snd w)"
  by (cases w) (simp add: close_def)

lemma bind_create: "filter is_bind_or_listen (snd (create sys w)) = filter is_bind_or_listen (snd w)"
  by (cases w) (simp add: create_def create_from_def setBlocking_def Let_def)

lemma IpAddress_eq_refl: "IpAddress_eq a a"
  by (simp add: IpAddress_eq_def IpAddress_less_def)

text \<open>
  C5. A \<^verbatim>\<open>send\<close> of more than \<^verbatim>\<open>MaxDatagramSize\<close> bytes returns Error and hands nothing
  to \<^verbatim>\<open>sendto\<close>: the \<^verbatim>\<open>sendto\<close> calls in the log are those that were there before. (The
  socket is created before the size is tested, so \<^verbatim>\<open>socket\<close> may have been called.)
\<close>

theorem oversized_datagram_rejected:
  assumes "sz > MaxDatagramSize"
  shows "fst (UdpSocket_send MaxDatagramSize sys h data sz remoteAddress remotePort w) = Error
       \<and> filter is_sendto
            (snd (snd (UdpSocket_send MaxDatagramSize sys h data sz remoteAddress remotePort w)))
          = filter is_sendto (snd w)"
  using assms sendto_create [of sys w]
  by (simp add: UdpSocket_send_def split: prod.splits)

theorem oversized_datagram_rejected_witness:
  "(65508 :: size_t) > 65507
   \<and> fst (UdpSocket_send 65507 sys_example LittleEndian (Some (replicate 65508 0)) 65508
            (LocalHost LittleEndian) 9 (UdpSocket_new, [])) = Error
   \<and> filter is_sendto
        (snd (snd (UdpSocket_send 65507 sys_example LittleEndian (Some (replicate 65508 0)) 65508
            (LocalHost LittleEndian) 9 (UdpSocket_new, []))))
      = filter is_sendto (snd (UdpSocket_new, []))"
proof -
  have h: "(65508 :: size_t) > 65507" by simp
  show ?thesis by (rule conjI [OF h oversized_datagram_rejected [OF h]])
qed

text \<open>
  C6. \<^verbatim>\<open>UdpSocket::bind\<close> and \<^verbatim>\<open>TcpListener::listen\<close> return Error for an address equal
  to the broadcast address, whatever the port, and call neither \<^verbatim>\<open>bind\<close> nor \<^verbatim>\<open>listen\<close>
  of the system.
\<close>

theorem broadcast_address_rejected:
  assumes "IpAddress_eq address (Broadcast h)"
  shows "fst (UdpSocket_bind sys h port address u) = Error
       \<and> filter is_bind_or_listen (snd (snd (UdpSocket_bind sys h port address u)))
          = filter is_bind_or_listen (snd u)
       \<and> fst (listen sys h port address l) = Error
       \<and> filter is_bind_or_listen (snd (snd (listen sys h port address l)))
          = filter is_bind_or_listen (snd l)"
  using assms bind_create [of sys "close u"] bind_close [of u]
    bind_create [of sys "close l"] bind_close [of l]
  by (simp add: UdpSocket_bind_def listen_def split: prod.splits)

theorem broadcast_address_rejected_witness:
  "IpAddress_eq (Broadcast LittleEndian) (Broadcast LittleEndian)
   \<and> fst (UdpSocket_bind sys_example LittleEndian 9 (Broadcast LittleEndian) (UdpSocket_new, []))
       = Error
   \<and> filter is_bind_or_listen
        (snd (snd (UdpSocket_bind sys_example LittleEndian 9 (Broadcast LittleEndian)
             (UdpSocket_new, []))))
      = filter is_bind_or_listen (snd (UdpSocket_new, []))
   \<and> fst (listen sys_example LittleEndian 9 (Broadcast LittleEndian) (TcpListener_new, []))
       = Error
   \<and> filter is_bind_or_listen
        (snd (snd (listen sys_example LittleEndian 9 (Broadcast LittleEndian)
             (TcpListener_new, []))))
      = filter is_bind_or_listen (snd (TcpListener_new, []))"
proof -
  have h: "IpAddress_eq (Broadcast LittleEndian) (Broadcast LittleEndian)"
    by (rule IpAddress_eq_refl)
  show ?thesis by (rule conjI [OF h broadcast_address_rejected [OF h]])
qed

text \<open>
  C9. \<^verbatim>\<open>UdpSocket::receive(Packet&, ...)\<close> clears the destination packet whatever the
  outcome: when the status is not Done, or no byte was received, the caller's packet is
  left empty, whatever it held.
\<close>

theorem receive_packet_clears_destination:
  assumes "out_status (fst (fst (UdpSocket_receive_packet MaxDatagramSize sys h packet w))) \<noteq> Done
         \<or> out_received (fst (fst (UdpSocket_receive_packet MaxDatagramSize sys h packet w))) = 0"
  shows "snd (fst (UdpSocket_receive_packet MaxDatagramSize sys h packet w)) = clear packet
       \<and> m_data (snd (fst (UdpSocket_receive_packet MaxDatagramSize sys h packet w))) = []"
  using assms
  by (auto simp: UdpSocket_receive_packet_def Let_def clear_def split: prod.splits)

theorem receive_packet_clears_destination_witness:
  "out_status (fst (fst (UdpSocket_receive_packet 65507 sys_example LittleEndian
        (insert_uint8 Packet_new 7) (UdpSocket_new, [])))) = NotReady
   \<and> snd (fst (UdpSocket_receive_packet 65507 sys_example LittleEndian
        (insert_uint8 Packet_new 7) (UdpSocket_new, []))) = clear (insert_uint8 Packet_new 7)
   \<and> m_data (snd (fst (UdpSocket_receive_packet 65507 sys_example LittleEndian
        (insert_uint8 Packet_new 7) (UdpSocket_new, [])))) = []"
proof -
  have s: "out_status (fst (fst (UdpSocket_receive_packet 65507 sys_example LittleEndian
        (insert_uint8 Packet_new 7) (UdpSocket_new, [])))) = NotReady"
    by (simp add: UdpSocket_receive_packet_def UdpSocket_receive_def UdpSocket_new_def
        sys_example_def resize_def vector_data_def static_cast_int_def getErrorStatus_def
        getNativeHandle_def invalidSocket_def Let_def)
  then have h: "out_status (fst (fst (UdpSocket_receive_packet 65507 sys_example LittleEndian
        (insert_uint8 Packet_new 7) (UdpSocket_new, [])))) \<noteq> Done
    \<or> out_received (fst (fst (UdpSocket_receive_packet 65507 sys_example LittleEndian
        (insert_uint8 Packet_new 7) (UdpSocket_new, [])))) = 0"
    by simp
  show ?thesis by (rule conjI [OF s receive_packet_clears_destination [OF h]])
qed

section \<open>IpAddress: the text of an address\<close>

lemma be_bytes_from_le:
  "push_bit 24 (ucast b0) OR push_bit 16 (ucast b1) OR push_bit 8 (ucast b2) OR ucast b3
     = (from_le [b3, b2, b1, b0] :: 32 word)"
  by (simp add: push_bit_or ac_simps)

lemma le_bytes4_from_le:
  "le_bytes 4 (from_le [b3, b2, b1, b0] :: 32 word) = [b3, b2, b1, b0]"
proof -
  have "le_bytes (length [b3, b2, b1, b0]) (from_le [b3, b2, b1, b0] :: 32 word)
          = [b3, b2, b1, b0]"
    by (rule le_bytes_from_le) simp
  moreover have "length [b3, b2, b1, b0] = 4" by simp
  ultimately show ?thesis by (simp only:)
qed

lemma object_bytes_IpAddress_bytes:
  "object_bytes h 4 (m_address (IpAddress_bytes h b0 b1 b2 b3)) = [b0, b1, b2, b3]"
  by (simp only: IpAddress_bytes_def IpAddress.select_convs be_bytes_from_le wire_uint32
      le_bytes4_from_le) simp

lemma length_decimal_1: "n < 10 \<Longrightarrow> length (decimal n) = 1"
  by simp

lemma length_decimal_2: "n < 100 \<Longrightarrow> length (decimal n) \<le> 2"
proof -
  assume "n < 100"
  then have "n div 10 < 10" by simp
  then have "length (decimal (n div 10)) = 1" by (rule length_decimal_1)
  then show ?thesis by (subst decimal.simps) simp
qed

lemma length_decimal_3: "n < 1000 \<Longrightarrow> length (decimal n) \<le> 3"
proof -
  assume "n < 1000"
  then have "n div 10 < 100" by simp
  then have "length (decimal (n div 10)) \<le> 2" by (rule length_decimal_2)
  then show ?thesis by (subst decimal.simps) simp
qed

lemma length_decimal_byte: "length (decimal (unat (b :: byte))) \<le> 3"
proof -
  have "unat b < 2 ^ 8" using unsigned_less [of b, where 'a=nat] by simp
  then show ?thesis by (intro length_decimal_3) simp
qed

text \<open>
  C7. The address constructed from the bytes \<open>b0\<close>, \<open>b1\<close>, \<open>b2\<close>, \<open>b3\<close> has the
  text \<open>b0.b1.b2.b3\<close>, each byte in decimal, on a host of either byte order; the
  fallback \<^verbatim>\<open>"0.0.0.0"\<close> of \<^verbatim>\<open>toString\<close> is never taken.
\<close>

theorem toString_of_bytes:
  "toString h (IpAddress_bytes h b0 b1 b2 b3) =
     decimal (unat b0) @ ''.'' @ decimal (unat b1) @ ''.'' @ decimal (unat b2) @ ''.''
     @ decimal (unat b3)"
proof -
  have "length (dotted [b0, b1, b2, b3]) + 1 \<le> INET_ADDRSTRLEN"
    using length_decimal_byte [of b0] length_decimal_byte [of b1]
      length_decimal_byte [of b2] length_decimal_byte [of b3]
    by (simp add: dotted_def INET_ADDRSTRLEN_def del: decimal.simps)
  then show ?thesis
    by (simp add: toString_def inet_ntop_def object_bytes_IpAddress_bytes dotted_def
        del: decimal.simps)
qed

lemma toString_example: "toString LittleEndian (IpAddress_bytes LittleEndian 192 168 0 1) = ''192.168.0.1''"
  by code_simp


section \<open>TcpSocket: reassembly of a frame\<close>

lemma absorb_prefix_append:
  "absorb_prefix pp (xs @ ys) = absorb_prefix (absorb_prefix pp xs) ys"
  by (induction xs arbitrary: pp) simp_all

lemma sizeReceived_absorb_prefix:
  "pending_sizeReceived (absorb_prefix pp bs) = pending_sizeReceived pp + length bs"
  by (induction bs arbitrary: pp) simp_all

lemma data_absorb_prefix: "pending_data (absorb_prefix pp bs) = pending_data pp"
  by (induction bs arbitrary: pp) simp_all

lemma absorb_prefix_4:
  "absorb_prefix PendingPacket_new [a, b, c, d] =
     \<lparr>pending_size = from_le [d, c, b, a], pending_sizeReceived = 4, pending_data = []\<rparr>"
  by (simp add: PendingPacket_new_def push_bit_or ac_simps)

lemma le_bytes4_list:
  "le_bytes 4 (w :: 32 word) = [ucast w, ucast (drop_bit 8 w), ucast (drop_bit 16 w), ucast (drop_bit 24 w)]"
  by (simp add: eval_nat_numeral)

lemma absorb_prefix_frame_prefix:
  "absorb_prefix PendingPacket_new (rev (le_bytes 4 (w :: 32 word))) =
     \<lparr>pending_size = w, pending_sizeReceived = 4, pending_data = []\<rparr>"
proof -
  have "from_le (le_bytes 4 w) = w"
    by (simp add: from_le_le_bytes take_bit_word_eq_self)
  then have "(from_le [ucast w, ucast (drop_bit 8 w), ucast (drop_bit 16 w), ucast (drop_bit 24 w)] :: 32 word) = w"
    by (simp only: le_bytes4_list)
  then show ?thesis
    by (simp only: le_bytes4_list rev.simps append.simps absorb_prefix_4)
qed

lemma length_frame: "length (frame payload) = 4 + length payload"
  by (simp add: frame_def length_le_bytes)

lemma take4_frame: "take 4 (frame payload) = rev (le_bytes 4 (of_nat (length payload) :: 32 word))"
  by (simp add: frame_def length_le_bytes)

lemma drop4_frame: "drop 4 (frame payload) = payload"
  by (simp add: frame_def length_le_bytes)

lemma unat_length32: "length payload < 2 ^ 32 \<Longrightarrow> unat (of_nat (length payload) :: 32 word) = length payload"
  by (simp add: unat_of_nat)

lemma pending_after_ge4:
  "4 \<le> j \<Longrightarrow> pending_after (frame payload) j =
     \<lparr>pending_size = of_nat (length payload), pending_sizeReceived = 4,
      pending_data = take (j - 4) payload\<rparr>"
  by (simp add: pending_after_def take4_frame drop4_frame absorb_prefix_frame_prefix)

lemma pending_after_0: "pending_after bytes 0 = PendingPacket_new"
  by (simp add: pending_after_def)

lemma pending_after_Suc:
  "j < 4 \<Longrightarrow> j < length bytes \<Longrightarrow>
   absorb_prefix (pending_after bytes j) [bytes ! j] = pending_after bytes (Suc j)"
  by (simp add: pending_after_def take_Suc_conv_app_nth absorb_prefix_append)

lemma sizeReceived_pending_after:
  "j \<le> 4 \<Longrightarrow> j \<le> length bytes \<Longrightarrow> pending_sizeReceived (pending_after bytes j) = j"
  by (simp add: pending_after_def sizeReceived_absorb_prefix PendingPacket_new_def)

lemma fill_packet:
  assumes "length payload < 2 ^ 32"
  shows "onReceive (clear packet) (vector_data payload) (of_nat (length payload))
           = (clear packet)\<lparr>m_data := payload\<rparr>"
proof (cases "payload = []")
  case True
  then show ?thesis by (simp add: onReceive_def append_def vector_data_def clear_def)
next
  case False
  from assms have u: "unat (of_nat (length payload) :: 64 word) = length payload"
    by (simp add: unat_of_nat)
  with False have "(of_nat (length payload) :: 64 word) \<noteq> 0"
    by (metis length_0_conv unat_0)
  then have "(of_nat (length payload) :: 64 word) > 0" by (simp add: word_gt_0)
  with False u show ?thesis
    by (simp add: onReceive_def append_def vector_data_def clear_def)
qed

lemma sizeReceived_absorb_one:
  "pending_sizeReceived (absorb_prefix pp [b]) = Suc (pending_sizeReceived pp)"
  by simp

lemma receive_prefix_byte:
  assumes "pending_sizeReceived (m_pendingPacket s) < 3"
  shows "TcpSocket_receive_packet (s, \<lparr>arrived = [b], peer_closed = False\<rparr>) packet =
         (NotReady, (s\<lparr>m_pendingPacket := absorb_prefix (m_pendingPacket s) [b]\<rparr>,
                     \<lparr>arrived = [], peer_closed = False\<rparr>), packet)"
  using assms
  by (simp add: TcpSocket_receive_packet_def TcpSocket_receive_def Let_def
      sizeReceived_absorb_one del: absorb_prefix.simps)

lemma receive_last_prefix_byte:
  assumes "pending_sizeReceived (m_pendingPacket s) = 3"
    and "absorb_prefix (m_pendingPacket s) [b] = pp4"
    and "pending_data pp4 = []"
  shows "TcpSocket_receive_packet (s, \<lparr>arrived = [b], peer_closed = False\<rparr>) packet =
         (if unat (pending_size pp4) = 0
          then (Done, (s\<lparr>m_pendingPacket := PendingPacket_new\<rparr>,
                       \<lparr>arrived = [], peer_closed = False\<rparr>), clear packet)
          else (NotReady, (s\<lparr>m_pendingPacket := pp4\<rparr>,
                           \<lparr>arrived = [], peer_closed = False\<rparr>), packet))"
proof -
  have "pending_sizeReceived (absorb_prefix (m_pendingPacket s) [b]) = 4"
    using assms(1) by simp
  then have 4: "pending_sizeReceived pp4 = 4"
    by (simp only: assms(2))
  show ?thesis
    using assms(1,3) 4
    by (simp add: TcpSocket_receive_packet_def TcpSocket_receive_def Let_def assms(2)
        onReceive_def append_def vector_data_def
        del: absorb_prefix.simps)
qed

lemma receive_payload_byte:
  assumes "m_pendingPacket s = \<lparr>pending_size = N, pending_sizeReceived = 4, pending_data = d\<rparr>"
    and "length d < unat N"
  shows "TcpSocket_receive_packet (s, \<lparr>arrived = [b], peer_closed = False\<rparr>) packet =
         (if Suc (length d) = unat N
          then (Done, (s\<lparr>m_pendingPacket := PendingPacket_new\<rparr>,
                       \<lparr>arrived = [], peer_closed = False\<rparr>),
                onReceive (clear packet) (vector_data (d @ [b])) (of_nat (Suc (length d))))
          else (NotReady,
                (s\<lparr>m_pendingPacket :=
                     \<lparr>pending_size = N, pending_sizeReceived = 4, pending_data = d @ [b]\<rparr>\<rparr>,
                 \<lparr>arrived = [], peer_closed = False\<rparr>), packet))"
  using assms
  by (simp add: TcpSocket_receive_packet_def TcpSocket_receive_def Let_def)


lemma receive_packet_step:
  assumes len: "length payload < 2 ^ 32"
    and j: "j < length (frame payload)"
    and pp: "m_pendingPacket s = pending_after (frame payload) j"
  shows "TcpSocket_receive_packet
           (s, \<lparr>arrived = [frame payload ! j], peer_closed = False\<rparr>) packet =
         (if Suc j = length (frame payload)
          then (Done, (s\<lparr>m_pendingPacket := PendingPacket_new\<rparr>,
                       \<lparr>arrived = [], peer_closed = False\<rparr>),
                (clear packet)\<lparr>m_data := payload\<rparr>)
          else (NotReady, (s\<lparr>m_pendingPacket := pending_after (frame payload) (Suc j)\<rparr>,
                           \<lparr>arrived = [], peer_closed = False\<rparr>), packet))"
proof -
  have n: "unat (of_nat (length payload) :: 32 word) = length payload"
    using len by (rule unat_length32)
  have lf: "length (frame payload) = 4 + length payload" by (rule length_frame)
  consider "j < 3" | "j = 3" | "4 \<le> j" by linarith
  then show ?thesis
  proof cases
    case 1
    have sr: "pending_sizeReceived (m_pendingPacket s) = j"
      unfolding pp using 1 lf by (intro sizeReceived_pending_after) simp_all
    have nx: "absorb_prefix (m_pendingPacket s) [frame payload ! j]
               = pending_after (frame payload) (Suc j)"
      unfolding pp using 1 lf by (intro pending_after_Suc) simp_all
    have "pending_sizeReceived (m_pendingPacket s) < 3" using sr 1 by simp
    from receive_prefix_byte [OF this, of "frame payload ! j" packet]
    show ?thesis using 1 lf by (simp only: nx) simp
  next
    case 2
    have sr: "pending_sizeReceived (m_pendingPacket s) = 3"
      unfolding pp using 2 lf by (simp add: sizeReceived_pending_after)
    have p4: "pending_after (frame payload) (Suc j) =
        \<lparr>pending_size = of_nat (length payload), pending_sizeReceived = 4, pending_data = []\<rparr>"
      using 2 pending_after_ge4 [of "Suc j" payload] by simp
    have nx: "absorb_prefix (m_pendingPacket s) [frame payload ! j]
               = pending_after (frame payload) (Suc j)"
      unfolding pp using 2 lf by (intro pending_after_Suc) simp_all
    have d: "pending_data (pending_after (frame payload) (Suc j)) = []"
      by (simp add: p4)
    have sz: "unat (pending_size (pending_after (frame payload) (Suc j))) = length payload"
      by (simp add: p4 n)
    note st = receive_last_prefix_byte [OF sr nx d, of packet, unfolded sz]
    show ?thesis
    proof (cases "payload = []")
      case True
      have e: "Suc j = length (frame payload)" using 2 lf True by simp
      have cl: "clear packet = (clear packet)\<lparr>m_data := payload\<rparr>"
        using True by (simp add: clear_def)
      have l0: "length payload = 0" using True by simp
      from st have "TcpSocket_receive_packet
           (s, \<lparr>arrived = [frame payload ! j], peer_closed = False\<rparr>) packet =
          (Done, (s\<lparr>m_pendingPacket := PendingPacket_new\<rparr>,
                       \<lparr>arrived = [], peer_closed = False\<rparr>), clear packet)"
        by (simp only: l0 if_True simp_thms)
      with cl e show ?thesis by simp
    next
      case False
      have e: "Suc j \<noteq> length (frame payload)" using 2 lf False by simp
      have l0: "length payload \<noteq> 0" using False by simp
      from st have "TcpSocket_receive_packet
           (s, \<lparr>arrived = [frame payload ! j], peer_closed = False\<rparr>) packet =
          (NotReady, (s\<lparr>m_pendingPacket := pending_after (frame payload) (Suc j)\<rparr>,
                           \<lparr>arrived = [], peer_closed = False\<rparr>), packet)"
        by (simp only: l0 if_False simp_thms)
      with e show ?thesis by simp
    qed
  next
    case 3
    have pj: "m_pendingPacket s =
        \<lparr>pending_size = of_nat (length payload), pending_sizeReceived = 4,
         pending_data = take (j - 4) payload\<rparr>"
      unfolding pp using 3 by (rule pending_after_ge4)
    have pS: "pending_after (frame payload) (Suc j) =
        \<lparr>pending_size = of_nat (length payload), pending_sizeReceived = 4,
         pending_data = take (Suc j - 4) payload\<rparr>"
      using 3 by (intro pending_after_ge4) simp
    have jl: "j - 4 < length payload" using 3 j lf by simp
    have fj: "frame payload ! j = payload ! (j - 4)"
      using 3 by (simp add: frame_def nth_append length_le_bytes)
    have tk: "take (j - 4) payload @ [frame payload ! j] = take (Suc j - 4) payload"
    proof -
      have "Suc j - 4 = Suc (j - 4)" using 3 by simp
      then show ?thesis
        using take_Suc_conv_app_nth [OF jl] by (simp only: fj)
    qed
    have ld: "length (take (j - 4) payload) = j - 4" using jl by simp
    have lt: "length (take (j - 4) payload) < unat (of_nat (length payload) :: 32 word)"
      using jl by (simp add: n)
    note st = receive_payload_byte [OF pj lt, of "frame payload ! j" packet]
    show ?thesis
    proof (cases "Suc j = length (frame payload)")
      case True
      then have all: "take (Suc j - 4) payload = payload" using lf by simp
      have c1: "Suc (length (take (j - 4) payload))
                  = unat (of_nat (length payload) :: 32 word)"
        using True lf 3 by (simp only: ld n)
      from st have "TcpSocket_receive_packet
           (s, \<lparr>arrived = [frame payload ! j], peer_closed = False\<rparr>) packet =
          (Done, (s\<lparr>m_pendingPacket := PendingPacket_new\<rparr>,
                       \<lparr>arrived = [], peer_closed = False\<rparr>),
           onReceive (clear packet) (vector_data payload) (of_nat (length payload)))"
        by (simp only: c1 n if_True simp_thms tk all)
      with True show ?thesis by (simp add: fill_packet [OF len])
    next
      case False
      have c1: "Suc (length (take (j - 4) payload))
                  \<noteq> unat (of_nat (length payload) :: 32 word)"
        using False lf 3 by (simp only: ld n)
      from st have "TcpSocket_receive_packet
           (s, \<lparr>arrived = [frame payload ! j], peer_closed = False\<rparr>) packet =
          (NotReady, (s\<lparr>m_pendingPacket := pending_after (frame payload) (Suc j)\<rparr>,
                           \<lparr>arrived = [], peer_closed = False\<rparr>), packet)"
        by (simp only: c1 if_False simp_thms tk pS)
      with False show ?thesis by simp
    qed
  qed
qed

lemma deliver_bytes_from:
  assumes len: "length payload < 2 ^ 32"
  shows "j < length (frame payload) \<Longrightarrow>
         m_pendingPacket s = pending_after (frame payload) j \<Longrightarrow>
         deliver ((s, \<lparr>arrived = [], peer_closed = False\<rparr>), packet)
                 (map (\<lambda>b. [b]) (drop j (frame payload))) =
           (replicate (length (frame payload) - Suc j) NotReady @ [Done],
            (s\<lparr>m_pendingPacket := PendingPacket_new\<rparr>, \<lparr>arrived = [], peer_closed = False\<rparr>),
            (clear packet)\<lparr>m_data := payload\<rparr>)"
proof (induction "length (frame payload) - j" arbitrary: j s)
  case 0
  then show ?case by simp
next
  case (Suc k)
  have dr: "drop j (frame payload) = frame payload ! j # drop (Suc j) (frame payload)"
    using Suc.prems(1) by (simp add: Cons_nth_drop_Suc)
  note st = receive_packet_step [OF len Suc.prems(1) Suc.prems(2), of packet]
  show ?case
  proof (cases "Suc j = length (frame payload)")
    case True
    then have "drop (Suc j) (frame payload) = []" by simp
    with st True show ?thesis by (simp add: dr)
  next
    case False
    with Suc.prems(1) have lt: "Suc j < length (frame payload)" by simp
    have k: "k = length (frame payload) - Suc j" using Suc.hyps(2) by simp
    have "m_pendingPacket (s\<lparr>m_pendingPacket := pending_after (frame payload) (Suc j)\<rparr>)
            = pending_after (frame payload) (Suc j)" by simp
    note ih = Suc.hyps(1) [OF k lt this]
    have rp: "replicate (length (frame payload) - Suc j) NotReady
               = NotReady # replicate (length (frame payload) - Suc (Suc j)) NotReady"
      using lt by (cases "length (frame payload) - Suc j") simp_all
    from st False ih show ?thesis by (simp add: dr rp)
  qed
qed

lemma receive_prefix_and_payload:
  assumes pp: "m_pendingPacket s = PendingPacket_new"
    and ab: "absorb_prefix PendingPacket_new pre =
      \<lparr>pending_size = N, pending_sizeReceived = 4, pending_data = []\<rparr>"
    and lp: "length pre = 4"
    and ln: "length rest = unat N"
  shows "TcpSocket_receive_packet (s, \<lparr>arrived = pre @ rest, peer_closed = False\<rparr>) packet =
           (Done, (s\<lparr>m_pendingPacket := PendingPacket_new\<rparr>,
                   \<lparr>arrived = [], peer_closed = False\<rparr>),
            onReceive (clear packet) (vector_data rest) (of_nat (length rest)))"
proof -
  have sr0: "pending_sizeReceived PendingPacket_new = 0" by (simp add: PendingPacket_new_def)
  have ne: "pre \<noteq> []" using lp by auto
  show ?thesis
  proof (cases "rest = []")
    case True
    with ln ne lp show ?thesis
      by (simp add: TcpSocket_receive_packet_def TcpSocket_receive_def pp sr0 ab Let_def
          del: absorb_prefix.simps)
  next
    case False
    with ln have "0 < unat N" by (cases rest) auto
    with False ln ne lp show ?thesis
      by (simp add: TcpSocket_receive_packet_def TcpSocket_receive_def pp sr0 ab Let_def
          del: absorb_prefix.simps)
  qed
qed

lemma receive_whole_frame:
  assumes len: "length payload < 2 ^ 32"
    and pp: "m_pendingPacket s = PendingPacket_new"
  shows "TcpSocket_receive_packet (s, \<lparr>arrived = frame payload, peer_closed = False\<rparr>) packet =
           (Done, (s\<lparr>m_pendingPacket := PendingPacket_new\<rparr>,
                   \<lparr>arrived = [], peer_closed = False\<rparr>),
            (clear packet)\<lparr>m_data := payload\<rparr>)"
proof -
  have n: "length payload = unat (of_nat (length payload) :: 32 word)"
    using unat_length32 [OF len] by simp
  have lp: "length (rev (le_bytes 4 (of_nat (length payload) :: 32 word))) = 4"
    by (simp add: length_le_bytes)
  from receive_prefix_and_payload [OF pp absorb_prefix_frame_prefix lp n, of packet]
  show ?thesis by (simp only: frame_def fill_packet [OF len])
qed

text \<open>
  C4. The bytes of a frame delivered one at a time, the framed receive called after each,
  give NotReady for every byte but the last and Done for the last; the destination
  packet then is the one that a single delivery of the whole frame gives, cleared and
  filled with the payload, and the pending packet is empty again in both cases.
\<close>

theorem bytewise_delivery_reassembles_frame:
  assumes "length payload < 2 ^ 32"
  shows "deliver ((s\<lparr>m_pendingPacket := PendingPacket_new\<rparr>,
                   \<lparr>arrived = [], peer_closed = False\<rparr>), packet)
           (map (\<lambda>b. [b]) (frame payload)) =
         (replicate (length (frame payload) - 1) NotReady @ [Done],
          (s\<lparr>m_pendingPacket := PendingPacket_new\<rparr>, \<lparr>arrived = [], peer_closed = False\<rparr>),
          (clear packet)\<lparr>m_data := payload\<rparr>)
       \<and> deliver ((s\<lparr>m_pendingPacket := PendingPacket_new\<rparr>,
                   \<lparr>arrived = [], peer_closed = False\<rparr>), packet)
           [frame payload] =
         ([Done],
          (s\<lparr>m_pendingPacket := PendingPacket_new\<rparr>, \<lparr>arrived = [], peer_closed = False\<rparr>),
          (clear packet)\<lparr>m_data := payload\<rparr>)"
proof
  have "0 < length (frame payload)" by (simp add: length_frame)
  moreover have "m_pendingPacket (s\<lparr>m_pendingPacket := PendingPacket_new\<rparr>)
                   = pending_after (frame payload) 0"
    by (simp add: pending_after_0)
  ultimately show "deliver ((s\<lparr>m_pendingPacket := PendingPacket_new\<rparr>,
                   \<lparr>arrived = [], peer_closed = False\<rparr>), packet)
           (map (\<lambda>b. [b]) (frame payload)) =
         (replicate (length (frame payload) - 1) NotReady @ [Done],
          (s\<lparr>m_pendingPacket := PendingPacket_new\<rparr>, \<lparr>arrived = [], peer_closed = False\<rparr>),
          (clear packet)\<lparr>m_data := payload\<rparr>)"
    using deliver_bytes_from [OF assms, of 0 "s\<lparr>m_pendingPacket := PendingPacket_new\<rparr>" packet]
    by simp
next
  have "m_pendingPacket (s\<lparr>m_pendingPacket := PendingPacket_new\<rparr>) = PendingPacket_new"
    by simp
  from receive_whole_frame [OF assms this, of packet]
  show "deliver ((s\<lparr>m_pendingPacket := PendingPacket_new\<rparr>,
                   \<lparr>arrived = [], peer_closed = False\<rparr>), packet)
           [frame payload] =
         ([Done],
          (s\<lparr>m_pendingPacket := PendingPacket_new\<rparr>, \<lparr>arrived = [], peer_closed = False\<rparr>),
          (clear packet)\<lparr>m_data := payload\<rparr>)"
    by simp
qed

theorem bytewise_delivery_reassembles_frame_witness:
  "length [0x68, 0x69 :: byte] < 2 ^ 32
   \<and> (deliver ((TcpSocket_new\<lparr>m_pendingPacket := PendingPacket_new\<rparr>,
                   \<lparr>arrived = [], peer_closed = False\<rparr>), Packet_new)
           (map (\<lambda>b. [b]) (frame [0x68, 0x69])) =
         (replicate (length (frame [0x68, 0x69]) - 1) NotReady @ [Done],
          (TcpSocket_new\<lparr>m_pendingPacket := PendingPacket_new\<rparr>,
           \<lparr>arrived = [], peer_closed = False\<rparr>),
          (clear Packet_new)\<lparr>m_data := [0x68, 0x69]\<rparr>)
       \<and> deliver ((TcpSocket_new\<lparr>m_pendingPacket := PendingPacket_new\<rparr>,
                   \<lparr>arrived = [], peer_closed = False\<rparr>), Packet_new)
           [frame [0x68, 0x69]] =
         ([Done],
          (TcpSocket_new\<lparr>m_pendingPacket := PendingPacket_new\<rparr>,
           \<lparr>arrived = [], peer_closed = False\<rparr>),
          (clear Packet_new)\<lparr>m_data := [0x68, 0x69]\<rparr>))"
proof -
  have h: "length [0x68, 0x69 :: byte] < 2 ^ 32" by simp
  show ?thesis by (rule conjI [OF h bytewise_delivery_reassembles_frame [OF h]])
qed

lemma frame_example: "frame [0x68, 0x69] = [0, 0, 0, 2, 0x68, 0x69]"
  by (simp add: frame_def le_bytes4_list)

lemma deliver_example:
  "fst (deliver ((TcpSocket_new, \<lparr>arrived = [], peer_closed = False\<rparr>), Packet_new)
     [[0], [0], [0], [2], [0x68], [0x69]]) = [NotReady, NotReady, NotReady, NotReady, NotReady, Done]"
  by (simp add: TcpSocket_new_def PendingPacket_new_def TcpSocket_receive_packet_def
      TcpSocket_receive_def Let_def)


end
